theory Spec2Isabelle
  imports Main
begin

section \<open>Target resolution and filtering of semgrep (\<open>semgrep/target_manager.py\<close>)\<close>

text \<open>
  The module decides which files are handed to the analysis engine for a language. It
  works on \<open>pathlib\<close> paths, matches them against glob patterns, asks the filesystem for
  the kind of a path, and runs \<open>find\<close> and \<open>git ls-files\<close> to list directories.

  Conventions of the embedding:
  \<^item> a Python \<open>str\<close> is a \<open>string\<close>;
  \<^item> a \<open>pathlib\<close> path is its parsed form: the root and the list of names;
  \<^item> a Python \<open>set\<close> of paths is a duplicate-free list. The order of the list stands for
    the iteration order of the set, which Python leaves open; statements about the
    contents of a set are made through \<open>set\<close>. The order of the resolved targets follows
    the order of the list of targets, so a statement for all lists of targets covers
    every order in which the set of targets can be run through;
  \<^item> an exception is the \<open>Inl\<close> of a sum;
  \<^item> the filesystem and the two external tools are an environment that the functions
    read; every read is recorded in a log of events, returned with the result, also when
    the result is an exception;
  \<^item> the cache of the manager is a map, and the manager is passed and returned.
\<close>

subsection \<open>Strings\<close>

text \<open>\<open>s.split(c)\<close> for a separator of one character: never an empty list.\<close>

fun split :: "char \<Rightarrow> string \<Rightarrow> string list" where
  "split c [] = [[]]"
| "split c (x # xs) =
     (if x = c then [] # split c xs
      else (case split c xs of
              [] \<Rightarrow> [[x]]
            | w # ws \<Rightarrow> (x # w) # ws))"

text \<open>
  The characters that \<open>str.isspace\<close> accepts, among the first 256 code points; these are
  what \<open>s.strip()\<close> removes at both ends.
\<close>

definition isspace :: "char \<Rightarrow> bool" where
  "isspace c \<longleftrightarrow> (of_char c :: nat) \<in> set [9, 10, 11, 12, 13, 28, 29, 30, 31, 32, 133, 160]"

definition strip :: "string \<Rightarrow> string" where
  "strip s = rev (dropWhile isspace (rev (dropWhile isspace s)))"

subsection \<open>Shell patterns on one name (\<open>fnmatch.fnmatchcase\<close>)\<close>

text \<open>
  \<open>pathlib\<close> compares one component of a path with one component of a pattern through
  \<open>fnmatch.fnmatchcase\<close> of the standard library: \<open>*\<close> stands for any string, \<open>?\<close> for
  any character, \<open>[seq]\<close> for a character of \<open>seq\<close> and \<open>[!seq]\<close> for a character outside
  it, where \<open>seq\<close> lists characters and ranges \<open>lo-hi\<close>; a \<open>[\<close> that is never closed
  stands for itself. A \<open>]\<close> right after \<open>[\<close> or \<open>[!\<close> belongs to \<open>seq\<close>.
\<close>

datatype glob_item = Star | Quest | Lit char | Class string

text \<open>
  The index of the \<open>]\<close> that closes a class, counted in the text after the \<open>[\<close>
  (the variable \<open>j\<close> of \<open>fnmatch.translate\<close>), if there is one.
\<close>

definition class_end :: "string \<Rightarrow> nat option" where
  "class_end cs =
     (let j0 = (if take 1 cs = ''!'' then 1 else 0);
          j1 = (if take 1 (drop j0 cs) = '']'' then j0 + 1 else j0);
          j = j1 + length (takeWhile (\<lambda>c. c \<noteq> CHR '']'') (drop j1 cs))
      in if j \<ge> length cs then None else Some j)"

function translate :: "string \<Rightarrow> glob_item list" where
  "translate [] = []"
| "translate (c # cs) =
     (if c = CHR ''*'' then Star # translate cs
      else if c = CHR ''?'' then Quest # translate cs
      else if c = CHR ''['' then
        (case class_end cs of
           None \<Rightarrow> Lit c # translate cs
         | Some j \<Rightarrow> Class (take j cs) # translate (drop (Suc j) cs))
      else Lit c # translate cs)"
  by pat_completeness auto
termination
  by (relation "measure length") auto

fun class_member :: "string \<Rightarrow> char \<Rightarrow> bool" where
  "class_member (lo # d # hi # rest) c =
     (if d = CHR ''-''
      then ((of_char lo :: nat) \<le> of_char c \<and> (of_char c :: nat) \<le> of_char hi)
           \<or> class_member rest c
      else lo = c \<or> class_member (d # hi # rest) c)"
| "class_member (x # rest) c = (x = c \<or> class_member rest c)"
| "class_member [] c = False"

fun item_accepts :: "glob_item \<Rightarrow> char \<Rightarrow> bool" where
  "item_accepts Quest c = True"
| "item_accepts (Lit x) c = (x = c)"
| "item_accepts (Class stuff) c =
     (if take 1 stuff = ''!'' then \<not> class_member (drop 1 stuff) c
      else class_member stuff c)"
| "item_accepts Star c = True"

fun items_match :: "glob_item list \<Rightarrow> string \<Rightarrow> bool" where
  "items_match [] [] = True"
| "items_match [] (c # s) = False"
| "items_match (Star # its) [] = items_match its []"
| "items_match (Star # its) (c # s) = (items_match its (c # s) \<or> items_match (Star # its) s)"
| "items_match (it # its) [] = False"
| "items_match (it # its) (c # s) = (item_accepts it c \<and> items_match its s)"

definition fnmatchcase :: "string \<Rightarrow> string \<Rightarrow> bool" where
  "fnmatchcase name pat = items_match (translate pat) name"

subsection \<open>Paths (\<open>pathlib.PurePosixPath\<close>)\<close>

text \<open>
  A path is kept as \<open>pathlib\<close> keeps it after parsing: the root (\<open>''''\<close> for a relative
  path, \<open>''/''\<close>, or \<open>''//''\<close> for exactly two leading slashes) and the names, with empty
  names and \<open>.\<close> dropped. Two paths are equal when these are, which is the equality of
  Python's sets of paths.
\<close>

datatype path = PosixPath (root: string) (names: "string list")

definition splitroot :: "string \<Rightarrow> string \<times> string" where
  "splitroot part =
     (if part \<noteq> [] \<and> hd part = CHR ''/'' then
        (let stripped_part = dropWhile (\<lambda>c. c = CHR ''/'') part
         in if length part - length stripped_part = 2 then (''//'', stripped_part)
            else (''/'', stripped_part))
      else ([], part))"

text \<open>\<open>Path(s)\<close> for one string.\<close>

definition Path :: "string \<Rightarrow> path" where
  "Path s =
     (let (rt, rel) = splitroot s
      in PosixPath rt (filter (\<lambda>x. x \<noteq> [] \<and> x \<noteq> ''.'') (split CHR ''/'' rel)))"

text \<open>\<open>p.parts\<close>: the root, when there is one, then the names.\<close>

definition parts :: "path \<Rightarrow> string list" where
  "parts p = (if root p = [] then [] else [root p]) @ names p"

definition is_absolute :: "path \<Rightarrow> bool" where
  "is_absolute p \<longleftrightarrow> root p \<noteq> []"

text \<open>\<open>p.joinpath(s)\<close>, also written \<open>p / s\<close>: a rooted argument replaces \<open>p\<close>.\<close>

definition joinpath :: "path \<Rightarrow> string \<Rightarrow> path" where
  "joinpath p s =
     (let q = Path s
      in if root q \<noteq> [] then q else PosixPath (root p) (names p @ names q))"

text \<open>\<open>p.parents\<close>: the nearest ancestor first, down to the root or to \<open>.\<close>.\<close>

definition parents :: "path \<Rightarrow> path list" where
  "parents p = map (\<lambda>k. PosixPath (root p) (take k (names p))) (rev [0..<length (names p)])"

text \<open>
  The exceptions: the two of \<open>semgrep.error\<close>, the \<open>ValueError\<close> of \<open>pathlib\<close>, and the
  two of \<open>subprocess\<close> (\<open>CalledProcessError\<close> for an exit status other than 0, \<open>OSError\<close>
  for a command that cannot be started).
\<close>

datatype error =
    UnknownLanguageError string
  | NotGitProjectError path
  | ValueError
  | CalledProcessError
  | OSError

text \<open>
  \<open>p.match(path_pattern)\<close>. A pattern without parts raises \<open>ValueError\<close>; a rooted
  pattern must have the path's root and as many parts; a relative pattern is compared
  with the last parts of the path.
\<close>

definition path_match :: "path \<Rightarrow> string \<Rightarrow> error + bool" where
  "path_match p path_pattern =
     (let pat = Path path_pattern;
          pat_parts = parts pat;
          ps = parts p
      in if pat_parts = [] then Inl ValueError
         else if root pat \<noteq> [] \<and> root pat \<noteq> root p then Inr False
         else if root pat \<noteq> [] then
           (if length pat_parts \<noteq> length ps then Inr False
            else Inr (list_all (\<lambda>(part, pt). fnmatchcase part pt)
                        (zip (rev ps) (rev (tl pat_parts)))))
         else if length pat_parts > length ps then Inr False
         else Inr (list_all (\<lambda>(part, pt). fnmatchcase part pt)
                     (zip (rev ps) (rev pat_parts))))"

subsection \<open>The world outside: filesystem and external tools\<close>

text \<open>
  What a path names at call time: nothing, a directory, or something else (a file).
\<close>

datatype kind = File | Directory

text \<open>
  The outcome of running an external command: it ran and left an exit status and its
  standard output, or it could not be started at all (the tool is missing).
\<close>

datatype proc_result = Exited nat string | LaunchFailed

text \<open>
  \<open>run_find d pat\<close> is \<open>find d -type f -name pat\<close>; \<open>git_tracked d pat\<close> is
  \<open>git ls-files pat\<close> run in \<open>d\<close>; \<open>git_untracked d pat\<close> is
  \<open>git ls-files --other --exclude-standard pat\<close> run in \<open>d\<close>.
\<close>

text \<open>
  \<open>stat_error p\<close> says that \<open>os.stat\<close> fails on \<open>p\<close> with an error that \<open>pathlib\<close> does not
  take for "not there": a name that is too long, a directory that may not be searched.
\<close>

record env =
  fs :: "path \<Rightarrow> kind option"
  stat_error :: "path \<Rightarrow> bool"
  run_find :: "path \<Rightarrow> string \<Rightarrow> proc_result"
  git_tracked :: "path \<Rightarrow> string \<Rightarrow> proc_result"
  git_untracked :: "path \<Rightarrow> string \<Rightarrow> proc_result"

text \<open>
  \<open>p.exists()\<close> and \<open>p.is_dir()\<close> call \<open>os.stat\<close>. They answer false when the path is not
  there and raise the \<open>OSError\<close> of any other failure.
\<close>

definition exists :: "env \<Rightarrow> path \<Rightarrow> error + bool" where
  "exists e p = (if stat_error e p then Inl OSError else Inr (fs e p \<noteq> None))"

definition is_dir :: "env \<Rightarrow> path \<Rightarrow> error + bool" where
  "is_dir e p = (if stat_error e p then Inl OSError else Inr (fs e p = Some Directory))"

text \<open>Every read of the world is an event; a call returns the events it caused, in order.\<close>

datatype event =
    AskIsDir path
  | AskExists path
  | RunFind path string
  | RunGitTracked path string
  | RunGitUntracked path string

definition is_listing :: "event \<Rightarrow> bool" where
  "is_listing ev =
     (case ev of
        RunFind d pat \<Rightarrow> True
      | RunGitTracked d pat \<Rightarrow> True
      | RunGitUntracked d pat \<Rightarrow> True
      | AskIsDir p \<Rightarrow> False
      | AskExists p \<Rightarrow> False)"

text \<open>
  \<open>subprocess.check_output\<close>: the output of a command that exits with status 0;
  \<open>CalledProcessError\<close> for another status; \<open>OSError\<close> (\<open>FileNotFoundError\<close>) when the
  command cannot be started.
\<close>

definition check_output :: "proc_result \<Rightarrow> error + string" where
  "check_output r =
     (case r of
        LaunchFailed \<Rightarrow> Inl OSError
      | Exited rc out \<Rightarrow> if rc = 0 then Inr out else Inl CalledProcessError)"

text \<open>
  The handler \<open>except subprocess.CalledProcessError: raise NotGitProjectError(...)\<close> of
  \<open>_expand_dir\<close>: any other exception passes through.
\<close>

definition except_called_process_error :: "path \<Rightarrow> error \<Rightarrow> error" where
  "except_called_process_error curr_dir err =
     (case err of
        CalledProcessError \<Rightarrow> NotGitProjectError curr_dir
      | UnknownLanguageError l \<Rightarrow> err
      | NotGitProjectError d \<Rightarrow> err
      | ValueError \<Rightarrow> err
      | OSError \<Rightarrow> err)"

subsection \<open>\<open>lang_to_exts\<close>\<close>

definition lang_to_exts :: "string \<Rightarrow> error + string list" where
  "lang_to_exts language =
     (if language \<in> set [''python'', ''python2'', ''python3'', ''py''] then Inr [''py'', ''pyi'']
      else if language \<in> set [''js'', ''javascript''] then Inr [''js'']
      else if language \<in> set [''java''] then Inr [''java'']
      else if language \<in> set [''c''] then Inr [''c'']
      else if language \<in> set [''go'', ''golang''] then Inr [''go'']
      else if language \<in> set [''ml'', ''ocaml''] then Inr [''mli'', ''ml'', ''mly'', ''mll'']
      else Inl (UnknownLanguageError language))"

subsection \<open>Comprehensions that may raise\<close>

text \<open>
  \<open>any(f(x) for x in xs)\<close> where \<open>f\<close> may raise: it stops at the first true value and at
  the first exception.
\<close>

fun any_raise :: "('a \<Rightarrow> error + bool) \<Rightarrow> 'a list \<Rightarrow> error + bool" where
  "any_raise f [] = Inr False"
| "any_raise f (x # xs) =
     (case f x of
        Inl err \<Rightarrow> Inl err
      | Inr b \<Rightarrow> if b then Inr True else any_raise f xs)"

text \<open>
  \<open>[x for x in xs if f(x)]\<close>, and \<open>filter(f, xs)\<close> run to its end, where \<open>f\<close> may raise.
\<close>

fun filter_raise :: "('a \<Rightarrow> error + bool) \<Rightarrow> 'a list \<Rightarrow> error + 'a list" where
  "filter_raise f [] = Inr []"
| "filter_raise f (x # xs) =
     (case f x of
        Inl err \<Rightarrow> Inl err
      | Inr b \<Rightarrow>
         (case filter_raise f xs of
            Inl err \<Rightarrow> Inl err
          | Inr ys \<Rightarrow> Inr (if b then x # ys else ys)))"

text \<open>
  The elements on which such a run calls \<open>f\<close>: all of them, or those up to the first
  one on which \<open>f\<close> raises.
\<close>

fun asked :: "('a \<Rightarrow> error + bool) \<Rightarrow> 'a list \<Rightarrow> 'a list" where
  "asked f [] = []"
| "asked f (x # xs) =
     (case f x of
        Inl err \<Rightarrow> [x]
      | Inr b \<Rightarrow> x # asked f xs)"

text \<open>\<open>not r\<close> for the result of a call that may raise.\<close>

definition not_raise :: "error + bool \<Rightarrow> error + bool" where
  "not_raise r = (case r of Inl err \<Rightarrow> Inl err | Inr b \<Rightarrow> Inr (\<not> b))"

subsection \<open>Sets of paths\<close>

text \<open>
  \<open>set(xs)\<close> is \<open>remdups xs\<close>, \<open>a.union(b)\<close> and \<open>a.update(b)\<close> are \<open>union_set a b\<close>,
  \<open>a.add(x)\<close> is \<open>add_set a x\<close>.
\<close>

definition union_set :: "'a list \<Rightarrow> 'a list \<Rightarrow> 'a list" where
  "union_set a b = a @ filter (\<lambda>x. x \<notin> set a) (remdups b)"

definition add_set :: "'a list \<Rightarrow> 'a \<Rightarrow> 'a list" where
  "add_set a x = (if x \<in> set a then a else a @ [x])"

text \<open>
  Modelled from the spec: \<open>partition_set\<close> of \<open>semgrep.util\<close>, which is not among the
  sources. It splits a collection into the set of elements that satisfy the predicate
  and the set of those that do not. It builds the first set, then the second, and calls
  the predicate on every element for each of them; an exception of the predicate ends it.
\<close>

definition partition_set :: "('a \<Rightarrow> error + bool) \<Rightarrow> 'a list \<Rightarrow> error + 'a list \<times> 'a list" where
  "partition_set pred xs =
     (case filter_raise pred xs of
        Inl err \<Rightarrow> Inl err
      | Inr yes \<Rightarrow>
         (case filter_raise (\<lambda>x. not_raise (pred x)) xs of
            Inl err \<Rightarrow> Inl err
          | Inr no \<Rightarrow> Inr (remdups yes, remdups no)))"

text \<open>The elements on which \<open>partition_set\<close> calls the predicate, in order.\<close>

definition partition_asked :: "('a \<Rightarrow> error + bool) \<Rightarrow> 'a list \<Rightarrow> 'a list" where
  "partition_asked pred xs =
     (case filter_raise pred xs of
        Inl err \<Rightarrow> asked pred xs
      | Inr yes \<Rightarrow> asked pred xs @ asked (\<lambda>x. not_raise (pred x)) xs)"

subsection \<open>The target manager\<close>

record target_manager =
  tm_targets :: "string list"
  tm_includes :: "string list"
  tm_excludes :: "string list"
  tm_visible_to_git_only :: bool
  tm_filtered_targets :: "string \<rightharpoonup> path list"

text \<open>The constructor \<open>__init__\<close>: the cache starts empty.\<close>

definition TargetManager :: "string list \<Rightarrow> string list \<Rightarrow> string list \<Rightarrow> bool \<Rightarrow> target_manager" where
  "TargetManager incls excls tgts git =
     \<lparr> tm_targets = tgts, tm_includes = incls, tm_excludes = excls,
       tm_visible_to_git_only = git, tm_filtered_targets = Map.empty \<rparr>"

definition resolve_targets :: "string list \<Rightarrow> path list" where
  "resolve_targets tgts =
     (let base_path = Path ''.''
      in remdups (map (\<lambda>target. if is_absolute (Path target) then Path target
                                 else joinpath base_path target) tgts))"

definition parse_output :: "string \<Rightarrow> path \<Rightarrow> path list" where
  "parse_output out curr_dir =
     (if out \<noteq> [] then remdups (map (\<lambda>elem. joinpath curr_dir elem) (split CHR 0x0A (strip out)))
      else [])"

text \<open>
  The loop of \<open>_expand_dir\<close> over the extensions, with the set \<open>expanded\<close> built so far.
  With \<open>visible_to_git_only\<close> both \<open>git\<close> commands run inside one \<open>try\<close>, whose
  handler catches \<open>CalledProcessError\<close> only. \<open>find\<close> is run with \<open>subprocess.run\<close>,
  which does not look at the exit status.
\<close>

fun expand_exts ::
  "env \<Rightarrow> path \<Rightarrow> bool \<Rightarrow> string list \<Rightarrow> path list \<Rightarrow> (error + path list) \<times> event list" where
  "expand_exts e curr_dir git [] expanded = (Inr expanded, [])"
| "expand_exts e curr_dir git (ext # exts) expanded =
     (let pat = ''*.'' @ ext in
      if git then
        (case check_output (git_tracked e curr_dir pat) of
           Inl err \<Rightarrow> (Inl (except_called_process_error curr_dir err), [RunGitTracked curr_dir pat])
         | Inr tracked_output \<Rightarrow>
            (case check_output (git_untracked e curr_dir pat) of
               Inl err \<Rightarrow> (Inl (except_called_process_error curr_dir err),
                           [RunGitTracked curr_dir pat, RunGitUntracked curr_dir pat])
             | Inr untracked_output \<Rightarrow>
                (let tracked = parse_output tracked_output curr_dir;
                     untracked_unignored = parse_output untracked_output curr_dir;
                     (r, evs) = expand_exts e curr_dir git exts
                                  (union_set (union_set expanded tracked) untracked_unignored)
                 in (r, RunGitTracked curr_dir pat # RunGitUntracked curr_dir pat # evs))))
      else
        (case run_find e curr_dir pat of
           LaunchFailed \<Rightarrow> (Inl OSError, [RunFind curr_dir pat])
         | Exited rc out \<Rightarrow>
            (let ext_files = parse_output out (Path ''.'');
                 (r, evs) = expand_exts e curr_dir git exts (union_set expanded ext_files)
             in (r, RunFind curr_dir pat # evs))))"

definition expand_dir :: "env \<Rightarrow> path \<Rightarrow> string \<Rightarrow> bool \<Rightarrow> (error + path list) \<times> event list" where
  "expand_dir e curr_dir language git =
     (case lang_to_exts language of
        Inl err \<Rightarrow> (Inl err, [])
      | Inr extensions \<Rightarrow> expand_exts e curr_dir git extensions [])"

text \<open>The loop of \<open>expand_targets\<close> over the targets, with the set \<open>expanded\<close> built so far.\<close>

fun expand_loop ::
  "env \<Rightarrow> string \<Rightarrow> bool \<Rightarrow> path list \<Rightarrow> path list \<Rightarrow> (error + path list) \<times> event list" where
  "expand_loop e lang git [] expanded = (Inr expanded, [])"
| "expand_loop e lang git (target # rest) expanded =
     (case exists e target of
        Inl err \<Rightarrow> (Inl err, [AskExists target])
      | Inr there \<Rightarrow>
         if \<not> there then
           (let (r, evs) = expand_loop e lang git rest expanded
            in (r, AskExists target # evs))
         else
           (case is_dir e target of
              Inl err \<Rightarrow> (Inl err, [AskExists target, AskIsDir target])
            | Inr dir \<Rightarrow>
               if dir then
                 (case expand_dir e target lang git of
                    (Inl err, evs1) \<Rightarrow> (Inl err, AskExists target # AskIsDir target # evs1)
                  | (Inr files, evs1) \<Rightarrow>
                     (let (r, evs) = expand_loop e lang git rest (union_set expanded files)
                      in (r, AskExists target # AskIsDir target # evs1 @ evs)))
               else
                 (let (r, evs) = expand_loop e lang git rest (add_set expanded target)
                  in (r, AskExists target # AskIsDir target # evs))))"

definition expand_targets ::
  "env \<Rightarrow> path list \<Rightarrow> string \<Rightarrow> bool \<Rightarrow> (error + path list) \<times> event list" where
  "expand_targets e tgts lang git = expand_loop e lang git tgts []"

subsection \<open>Glob filters\<close>

definition match_glob :: "path \<Rightarrow> string list \<Rightarrow> error + bool" where
  "match_glob p globs =
     (let subpaths = p # parents p
      in any_raise (\<lambda>(q, glob). path_match q glob) (List.product subpaths globs))"

definition filter_includes :: "path list \<Rightarrow> string list \<Rightarrow> error + path list" where
  "filter_includes arr incls =
     (if incls = [] then Inr arr
      else (case filter_raise (\<lambda>elem. match_glob elem incls) arr of
              Inl err \<Rightarrow> Inl err
            | Inr ys \<Rightarrow> Inr (remdups ys)))"

definition filter_excludes :: "path list \<Rightarrow> string list \<Rightarrow> error + path list" where
  "filter_excludes arr excls =
     (case filter_raise (\<lambda>elem. case match_glob elem excls of
                                   Inl err \<Rightarrow> Inl err
                                 | Inr b \<Rightarrow> Inr (\<not> b)) arr of
        Inl err \<Rightarrow> Inl err
      | Inr ys \<Rightarrow> Inr (remdups ys))"

subsection \<open>\<open>filtered_files\<close> and \<open>get_files\<close>\<close>

text \<open>
  A call returns its result, the manager after the call and the events of the call.
  The cache is written only when the computation ends without an exception.
\<close>

definition filtered_files ::
  "target_manager \<Rightarrow> env \<Rightarrow> string \<Rightarrow> (error + path list) \<times> target_manager \<times> event list" where
  "filtered_files self e lang =
     (case tm_filtered_targets self lang of
        Some cached \<Rightarrow> (Inr cached, self, [])
      | None \<Rightarrow>
         (let tgts = resolve_targets (tm_targets self);
              evs0 = map AskIsDir (partition_asked (\<lambda>p. not_raise (is_dir e p)) tgts)
          in case partition_set (\<lambda>p. not_raise (is_dir e p)) tgts of
               Inl err \<Rightarrow> (Inl err, self, evs0)
             | Inr (explicit_files, directories) \<Rightarrow>
                (case expand_targets e directories lang (tm_visible_to_git_only self) of
                   (Inl err, evs1) \<Rightarrow> (Inl err, self, evs0 @ evs1)
                 | (Inr expanded, evs1) \<Rightarrow>
                    (case filter_includes expanded (tm_includes self) of
                       Inl err \<Rightarrow> (Inl err, self, evs0 @ evs1)
                     | Inr included \<Rightarrow>
                        (case filter_excludes included (tm_excludes self) of
                           Inl err \<Rightarrow> (Inl err, self, evs0 @ evs1)
                         | Inr kept \<Rightarrow>
                            (let result = union_set kept explicit_files
                             in (Inr result,
                                 self\<lparr>tm_filtered_targets :=
                                        (tm_filtered_targets self)(lang \<mapsto> result)\<rparr>,
                                 evs0 @ evs1)))))))"

text \<open>\<open>list(targets)\<close> of the final set is the list that stands for it.\<close>

definition get_files ::
  "target_manager \<Rightarrow> env \<Rightarrow> string \<Rightarrow> string list \<Rightarrow> string list
     \<Rightarrow> (error + path list) \<times> target_manager \<times> event list" where
  "get_files self e lang incls excls =
     (case filtered_files self e lang of
        (Inl err, self', evs) \<Rightarrow> (Inl err, self', evs)
      | (Inr tgts, self', evs) \<Rightarrow>
         (case filter_includes tgts incls of
            Inl err \<Rightarrow> (Inl err, self', evs)
          | Inr included \<Rightarrow>
             (case filter_excludes included excls of
                Inl err \<Rightarrow> (Inl err, self', evs)
              | Inr kept \<Rightarrow> (Inr kept, self', evs))))"

subsection \<open>Concrete worlds\<close>

text \<open>\<open>str(p)\<close>: the root, then the names separated by \<open>/\<close>; \<open>.\<close> for the empty path.\<close>

fun join_names :: "string list \<Rightarrow> string" where
  "join_names [] = []"
| "join_names [n] = n"
| "join_names (n # ns) = n @ ''/'' @ join_names ns"

definition path_str :: "path \<Rightarrow> string" where
  "path_str p = (if root p = [] \<and> names p = [] then ''.'' else root p @ join_names (names p))"

text \<open>
  Modelled from the spec: the filesystem walk capability \<open>find d -type f -name pat\<close>,
  which is an external tool. Over a listing of the regular files of a tree it prints,
  one per line, every file below \<open>d\<close> whose last name matches \<open>pat\<close>, written as \<open>d\<close>
  followed by the names below it.
\<close>

definition find_files :: "path list \<Rightarrow> path \<Rightarrow> string \<Rightarrow> proc_result" where
  "find_files files d pat =
     Exited 0 (concat (map (\<lambda>f. path_str d @ ''/'' @ join_names (drop (length (names d)) (names f))
                                  @ [CHR 0x0A])
                 (filter (\<lambda>f. root f = root d \<and> length (names d) < length (names f)
                               \<and> take (length (names d)) (names f) = names d
                               \<and> fnmatchcase (last (names f)) pat) files)))"

text \<open>
  A tree of regular files that is not under version control: a path is a file when it is
  listed, a directory when it is a proper ancestor of a listed file, and nothing
  otherwise; \<open>os.stat\<close> fails on no path but those that are not there; \<open>git\<close> starts and
  exits with status 128.
\<close>

definition plain_tree :: "path list \<Rightarrow> env" where
  "plain_tree files =
     \<lparr> fs = (\<lambda>p. if p \<in> set files then Some File
                 else if list_ex (\<lambda>f. p \<in> set (parents f)) files then Some Directory
                 else None),
       stat_error = (\<lambda>p. False),
       run_find = find_files files,
       git_tracked = (\<lambda>d pat. Exited 128 []),
       git_untracked = (\<lambda>d pat. Exited 128 []) \<rparr>"

text \<open>The tree of the first scenario: \<open>src\<close> holds \<open>a.py\<close>, \<open>b.pyi\<close> and \<open>c.txt\<close>.\<close>

definition src_tree :: env where
  "src_tree = plain_tree [Path ''src/a.py'', Path ''src/b.pyi'', Path ''src/c.txt'']"

text \<open>
  The same tree seen by a user who may not search the directory \<open>locked\<close>: \<open>os.stat\<close>
  fails on \<open>locked/x.rb\<close> with "permission denied".
\<close>

definition src_tree_locked :: env where
  "src_tree_locked = src_tree\<lparr> stat_error := (\<lambda>p. p = Path ''locked/x.rb'') \<rparr>"

text \<open>The same tree on a machine where \<open>git\<close> is not installed: the command cannot start.\<close>

definition src_tree_no_git :: env where
  "src_tree_no_git =
     src_tree\<lparr> git_tracked := (\<lambda>d pat. LaunchFailed), git_untracked := (\<lambda>d pat. LaunchFailed) \<rparr>"

text \<open>
  The same tree as a repository in which \<open>a.py\<close> is tracked and \<open>b.pyi\<close> is untracked
  and not ignored. \<open>git ls-files\<close> prints paths relative to the directory it runs in.
\<close>

definition src_repo :: env where
  "src_repo =
     src_tree\<lparr>
       git_tracked := (\<lambda>d pat. if d = Path ''src'' \<and> pat = ''*.py''
                                then Exited 0 (''a.py'' @ [CHR 0x0A]) else Exited 0 []),
       git_untracked := (\<lambda>d pat. if d = Path ''src'' \<and> pat = ''*.pyi''
                                  then Exited 0 (''b.pyi'' @ [CHR 0x0A]) else Exited 0 []) \<rparr>"

subsection \<open>Notions used in the statements\<close>

text \<open>The standard output of a command that ran.\<close>

definition stdout :: "proc_result \<Rightarrow> string" where
  "stdout r = (case r of Exited rc out \<Rightarrow> out | LaunchFailed \<Rightarrow> [])"

text \<open>A command succeeded when it ran and exited with status 0.\<close>

definition succeeded :: "proc_result \<Rightarrow> bool" where
  "succeeded r = (case r of Exited rc out \<Rightarrow> rc = 0 | LaunchFailed \<Rightarrow> False)"

text \<open>
  The version-control queries of \<open>_expand_dir\<close> for a directory and a list of
  extensions, in the order in which the loop asks them.
\<close>

definition git_queries :: "env \<Rightarrow> path \<Rightarrow> string list \<Rightarrow> proc_result list" where
  "git_queries e d exts =
     concat (map (\<lambda>ext. [git_tracked e d (''*.'' @ ext), git_untracked e d (''*.'' @ ext)]) exts)"

text \<open>
  The manager after a run of \<open>filtered_files\<close> calls, each with the world as it is at
  that call and with its language.
\<close>

fun after_calls :: "target_manager \<Rightarrow> (env \<times> string) list \<Rightarrow> target_manager" where
  "after_calls tm [] = tm"
| "after_calls tm ((e, lang) # cs) = after_calls (fst (snd (filtered_files tm e lang))) cs"

section \<open>Properties\<close>

subsection \<open>Auxiliary facts\<close>

subsubsection \<open>Sets as lists\<close>

lemma set_union_set: "set (union_set a b) = set a \<union> set b"
  by (auto simp: union_set_def)

lemma distinct_union_set: "distinct a \<Longrightarrow> distinct (union_set a b)"
  by (auto simp: union_set_def)

lemma set_add_set: "set (add_set a x) = insert x (set a)"
  by (auto simp: add_set_def)

lemma distinct_add_set: "distinct a \<Longrightarrow> distinct (add_set a x)"
  by (auto simp: add_set_def)

subsubsection \<open>Comprehensions that may raise\<close>

lemma product_Nil2: "List.product xs [] = []"
  by (induction xs) auto

lemma ball_product:
  "(\<forall>x\<in>set (List.product xs ys). (case x of (a, b) \<Rightarrow> f a b) = v)
     \<longleftrightarrow> (\<forall>a\<in>set xs. \<forall>b\<in>set ys. f a b = v)"
  by auto

lemma filter_raise_Inr:
  "filter_raise f xs = Inr ys \<Longrightarrow>
     ys = filter (\<lambda>x. f x = Inr True) xs \<and> (\<forall>x\<in>set xs. f x = Inr True \<or> f x = Inr False)"
proof (induction xs arbitrary: ys)
  case Nil
  then show ?case by simp
next
  case (Cons x xs)
  then show ?case
    by (auto split: sum.splits if_splits)
qed

lemma filter_raise_Inl:
  "filter_raise f xs = Inl err \<Longrightarrow> \<exists>x\<in>set xs. f x = Inl err"
proof (induction xs)
  case Nil
  then show ?case by simp
next
  case (Cons x xs)
  show ?case
  proof (cases "f x")
    case (Inl a)
    with Cons.prems show ?thesis by simp
  next
    case (Inr b)
    with Cons.prems have "filter_raise f xs = Inl err"
      by (simp split: sum.splits)
    with Cons.IH show ?thesis by auto
  qed
qed

lemma filter_raise_raises:
  assumes "\<exists>x\<in>set xs. f x = Inl a"
    and "\<forall>x\<in>set xs. \<forall>err. f x = Inl err \<longrightarrow> err = a"
  shows "filter_raise f xs = Inl a"
  using assms
proof (induction xs)
  case Nil
  then show ?case by simp
next
  case (Cons x xs)
  show ?case
  proof (cases "f x")
    case (Inl err)
    with Cons.prems(2) have "err = a" by simp
    with Inl show ?thesis by simp
  next
    case (Inr b)
    with Cons.prems(1) have "\<exists>x\<in>set xs. f x = Inl a" by auto
    moreover from Cons.prems(2) have "\<forall>x\<in>set xs. \<forall>err. f x = Inl err \<longrightarrow> err = a" by simp
    ultimately have "filter_raise f xs = Inl a" by (rule Cons.IH)
    with Inr show ?thesis by simp
  qed
qed

lemma filter_raise_total:
  "\<forall>x\<in>set xs. f x = Inr (g x) \<Longrightarrow> filter_raise f xs = Inr (filter g xs)"
  by (induction xs) auto

lemma any_raise_False:
  "any_raise f xs = Inr False \<longleftrightarrow> (\<forall>x\<in>set xs. f x = Inr False)"
  by (induction xs) (auto split: sum.splits)

lemma any_raise_True:
  "any_raise f xs = Inr True \<Longrightarrow> \<exists>x\<in>set xs. f x = Inr True"
  by (induction xs) (auto split: sum.splits if_splits)

lemma any_raise_Inl:
  "any_raise f xs = Inl err \<Longrightarrow> \<exists>x\<in>set xs. f x = Inl err"
proof (induction xs)
  case Nil
  then show ?case by simp
next
  case (Cons x xs)
  show ?case
  proof (cases "f x")
    case (Inl a)
    with Cons.prems show ?thesis by simp
  next
    case (Inr b)
    with Cons.prems have "any_raise f xs = Inl err"
      by (cases b) simp_all
    with Cons.IH show ?thesis by auto
  qed
qed

lemma any_raise_total:
  "\<forall>x\<in>set xs. f x = Inr (g x) \<Longrightarrow> any_raise f xs = Inr (list_ex g xs)"
  by (induction xs) auto

subsubsection \<open>Matching and filtering\<close>

lemma match_glob_Nil: "match_glob p [] = Inr False"
  by (simp add: match_glob_def product_Nil2)

lemma path_match_total:
  "parts (Path g) \<noteq> [] \<Longrightarrow> path_match q g = Inr (path_match q g = Inr True)"
  by (auto simp: path_match_def Let_def)

lemma match_glob_False_iff:
  "match_glob p globs = Inr False \<longleftrightarrow>
     (\<forall>q\<in>set (p # parents p). \<forall>g\<in>set globs. path_match q g = Inr False)"
  unfolding match_glob_def Let_def any_raise_False by (rule ball_product)

lemma match_glob_True:
  "match_glob p globs = Inr True \<Longrightarrow>
     \<exists>q\<in>set (p # parents p). \<exists>g\<in>set globs. path_match q g = Inr True"
  unfolding match_glob_def Let_def by (drule any_raise_True) auto

lemma match_glob_returns:
  "match_glob p globs = Inr b \<Longrightarrow>
     b = (\<exists>q\<in>set (p # parents p). \<exists>g\<in>set globs. path_match q g = Inr True)"
proof (cases b)
  case True
  assume "match_glob p globs = Inr b"
  with True show ?thesis using match_glob_True [of p globs] by simp
next
  case False
  assume "match_glob p globs = Inr b"
  with False have "\<forall>q\<in>set (p # parents p). \<forall>g\<in>set globs. path_match q g = Inr False"
    by (simp add: match_glob_False_iff)
  with False show ?thesis by auto
qed

lemma match_glob_total:
  assumes "\<forall>g\<in>set globs. parts (Path g) \<noteq> []"
  shows "match_glob p globs =
           Inr (\<exists>q\<in>set (p # parents p). \<exists>g\<in>set globs. path_match q g = Inr True)"
proof -
  have "\<forall>x\<in>set (List.product (p # parents p) globs).
          (\<lambda>(q, glob). path_match q glob) x = Inr ((\<lambda>(q, glob). path_match q glob = Inr True) x)"
    using assms path_match_total by auto
  then have "match_glob p globs =
      Inr (list_ex (\<lambda>(q, glob). path_match q glob = Inr True) (List.product (p # parents p) globs))"
    unfolding match_glob_def Let_def by (rule any_raise_total)
  also have "list_ex (\<lambda>(q, glob). path_match q glob = Inr True) (List.product (p # parents p) globs)
      = (\<exists>q\<in>set (p # parents p). \<exists>g\<in>set globs. path_match q g = Inr True)"
    unfolding list_ex_iff by auto
  finally show ?thesis .
qed

lemma match_glob_Inl: "match_glob p globs = Inl err \<Longrightarrow> err = ValueError"
proof -
  assume "match_glob p globs = Inl err"
  then obtain q g where "path_match q g = Inl err"
    unfolding match_glob_def Let_def by (auto dest!: any_raise_Inl)
  then show ?thesis
    by (auto simp: path_match_def Let_def split: if_splits)
qed

lemma filter_excludes_Inl: "filter_excludes S P = Inl err \<Longrightarrow> err = ValueError"
proof -
  assume "filter_excludes S P = Inl err"
  then have "filter_raise (\<lambda>elem. case match_glob elem P of
                                       Inl err \<Rightarrow> Inl err | Inr b \<Rightarrow> Inr (\<not> b)) S = Inl err"
    by (auto simp: filter_excludes_def split: sum.splits)
  then obtain x where "(case match_glob x P of Inl err \<Rightarrow> Inl err | Inr b \<Rightarrow> Inr (\<not> b)) = Inl err"
    by (auto dest!: filter_raise_Inl)
  then have "match_glob x P = Inl err"
    by (auto split: sum.splits)
  then show ?thesis by (rule match_glob_Inl)
qed

lemma filter_includes_Inl: "filter_includes S P = Inl err \<Longrightarrow> err = ValueError"
proof -
  assume "filter_includes S P = Inl err"
  then have "filter_raise (\<lambda>elem. match_glob elem P) S = Inl err"
    by (auto simp: filter_includes_def split: sum.splits if_splits)
  then obtain x where "match_glob x P = Inl err"
    by (auto dest!: filter_raise_Inl)
  then show ?thesis by (rule match_glob_Inl)
qed

lemma filter_excludes_Inr:
  assumes "filter_excludes S P = Inr R"
  shows "set R = {e \<in> set S. match_glob e P = Inr False}"
proof -
  let ?f = "\<lambda>elem. case match_glob elem P of Inl err \<Rightarrow> Inl err | Inr b \<Rightarrow> Inr (\<not> b)"
  from assms obtain ys where ys: "filter_raise ?f S = Inr ys" and R: "R = remdups ys"
    by (auto simp: filter_excludes_def split: sum.splits)
  from filter_raise_Inr [OF ys] have "ys = filter (\<lambda>x. ?f x = Inr True) S" by simp
  moreover have "\<And>x. (?f x = Inr True) = (match_glob x P = Inr False)"
    by (auto split: sum.splits)
  ultimately show ?thesis using R by auto
qed

lemma distinct_filter_excludes: "filter_excludes S P = Inr R \<Longrightarrow> distinct R"
  by (auto simp: filter_excludes_def split: sum.splits)

lemma filter_includes_Inr:
  assumes "filter_includes S P = Inr R"
  shows "set R = (if P = [] then set S else {e \<in> set S. match_glob e P = Inr True})"
proof (cases "P = []")
  case True
  with assms show ?thesis by (simp add: filter_includes_def)
next
  case False
  with assms obtain ys where ys: "filter_raise (\<lambda>elem. match_glob elem P) S = Inr ys"
      and R: "R = remdups ys"
    by (auto simp: filter_includes_def split: sum.splits)
  from filter_raise_Inr [OF ys] have "ys = filter (\<lambda>x. match_glob x P = Inr True) S" by simp
  with R False show ?thesis by auto
qed

lemma local_filters_error:
  "(case filter_includes S incls of Inl err \<Rightarrow> Inl err | Inr included \<Rightarrow> filter_excludes included excls)
     = Inl err \<Longrightarrow> err = ValueError"
  by (auto split: sum.splits dest: filter_includes_Inl filter_excludes_Inl)

subsubsection \<open>Expansion\<close>

text \<open>An output of several lines gives one path for each line, joined to the directory.\<close>

lemma parse_output_lines:
  "parse_output (''a.py'' @ [CHR 0x0A] @ ''sub/b.py'' @ [CHR 0x0A]) (Path ''src'')
     = [Path ''src/a.py'', Path ''src/sub/b.py'']"
  by code_simp

lemma lang_to_exts_Inl: "lang_to_exts lang = Inl err \<Longrightarrow> err = UnknownLanguageError lang"
  by (auto simp: lang_to_exts_def split: if_splits)

lemma is_dir_cases:
  "is_dir e p = Inl OSError \<or> is_dir e p = Inr True \<or> is_dir e p = Inr False"
  by (simp add: is_dir_def)

lemma is_dir_exists: "is_dir e p = Inr True \<Longrightarrow> exists e p = Inr True"
  by (auto simp: is_dir_def exists_def split: if_splits)

lemma is_dir_file: "fs e p = Some File \<Longrightarrow> is_dir e p = Inr b \<Longrightarrow> \<not> b"
  by (auto simp: is_dir_def split: if_splits)

lemma expand_loop_unknown:
  assumes "lang_to_exts lang = Inl err"
    and "\<forall>t\<in>set ts. is_dir e t = Inr True"
  shows "\<not> list_ex is_listing (snd (expand_loop e lang git ts acc))
     \<and> (ts \<noteq> [] \<longrightarrow> fst (expand_loop e lang git ts acc) = Inl err)
     \<and> (ts = [] \<longrightarrow> fst (expand_loop e lang git ts acc) = Inr acc)"
proof (cases ts)
  case Nil
  then show ?thesis by simp
next
  case (Cons t rest)
  with assms(2) have d: "is_dir e t = Inr True" by simp
  then have "exists e t = Inr True" by (rule is_dir_exists)
  with d assms(1) Cons show ?thesis
    by (simp add: expand_dir_def is_listing_def)
qed

subsubsection \<open>The partition of the targets\<close>

lemma not_raise_simps:
  "not_raise r = Inr True \<longleftrightarrow> r = Inr False"
  "not_raise r = Inr False \<longleftrightarrow> r = Inr True"
  "not_raise r = Inl err \<longleftrightarrow> r = Inl err"
  by (cases r; auto simp: not_raise_def)+

lemma partition_set_Inr:
  assumes "partition_set pred xs = Inr (yes, no)"
  shows "set yes = {x \<in> set xs. pred x = Inr True}
     \<and> set no = {x \<in> set xs. pred x = Inr False}
     \<and> (\<forall>x\<in>set xs. pred x = Inr True \<or> pred x = Inr False)"
proof -
  from assms obtain ys ns where ys: "filter_raise pred xs = Inr ys"
    and ns: "filter_raise (\<lambda>x. not_raise (pred x)) xs = Inr ns"
    and y: "yes = remdups ys" and n: "no = remdups ns"
    by (auto simp: partition_set_def split: sum.splits)
  from filter_raise_Inr [OF ys] filter_raise_Inr [OF ns] y n show ?thesis
    by (auto simp: not_raise_simps)
qed

lemma partition_set_Inl:
  "partition_set pred xs = Inl err \<Longrightarrow> \<exists>x\<in>set xs. pred x = Inl err"
  by (auto simp: partition_set_def not_raise_simps split: sum.splits dest!: filter_raise_Inl)

lemma partition_set_raises:
  assumes "\<exists>x\<in>set xs. pred x = Inl a"
    and "\<forall>x\<in>set xs. \<forall>err. pred x = Inl err \<longrightarrow> err = a"
  shows "partition_set pred xs = Inl a"
proof -
  from assms have "filter_raise pred xs = Inl a" by (rule filter_raise_raises)
  then show ?thesis by (simp add: partition_set_def)
qed

lemma partition_set_returns:
  assumes "\<forall>x\<in>set xs. pred x = Inr True \<or> pred x = Inr False"
  shows "\<exists>yes no. partition_set pred xs = Inr (yes, no)"
proof (cases "partition_set pred xs")
  case (Inl err)
  then obtain x where "x \<in> set xs" "pred x = Inl err"
    by (auto dest!: partition_set_Inl)
  with assms show ?thesis by auto
next
  case (Inr r)
  then show ?thesis by (cases r) auto
qed

lemma asked_all:
  "\<forall>x\<in>set xs. f x = Inr True \<or> f x = Inr False \<Longrightarrow> asked f xs = xs"
proof (induction xs)
  case Nil
  then show ?case by simp
next
  case (Cons x xs)
  then have "f x = Inr True \<or> f x = Inr False" and "asked f xs = xs"
    by simp_all
  then show ?case by auto
qed

lemma partition_asked_returns:
  assumes "partition_set pred xs = Inr r"
  shows "partition_asked pred xs = xs @ xs"
proof -
  obtain yes no where r: "r = (yes, no)" by (cases r)
  from assms obtain ys where ys: "filter_raise pred xs = Inr ys"
    by (auto simp: partition_set_def split: sum.splits)
  from assms r have all: "\<forall>x\<in>set xs. pred x = Inr True \<or> pred x = Inr False"
    using partition_set_Inr [of pred xs yes no] by simp
  then have 1: "asked pred xs = xs" by (rule asked_all)
  from all have "\<forall>x\<in>set xs. not_raise (pred x) = Inr True \<or> not_raise (pred x) = Inr False"
    by (auto simp: not_raise_simps)
  then have 2: "asked (\<lambda>x. not_raise (pred x)) xs = xs" by (rule asked_all)
  from ys 1 2 show ?thesis by (simp add: partition_asked_def)
qed

lemma partition_events: "\<not> list_ex is_listing (map AskIsDir ps)"
  by (simp add: list_ex_iff is_listing_def)

lemma check_output_cases:
  "check_output r =
     (if succeeded r then Inr (stdout r)
      else if r = LaunchFailed then Inl OSError else Inl CalledProcessError)"
  by (cases r) (auto simp: check_output_def succeeded_def stdout_def)

lemma git_queries_Cons:
  "git_queries e d (ext # exts) =
     git_tracked e d (''*.'' @ ext) # git_untracked e d (''*.'' @ ext) # git_queries e d exts"
  by (simp add: git_queries_def)

lemma git_queries_Nil: "git_queries e d [] = []"
  by (simp add: git_queries_def)

lemma expand_exts_git:
  "(case List.find (\<lambda>r. \<not> succeeded r) (git_queries e d exts) of
      None \<Rightarrow>
        (\<exists>xs. fst (expand_exts e d True exts acc) = Inr xs
           \<and> set xs = set acc \<union>
                (\<Union>ext\<in>set exts.
                    set (parse_output (stdout (git_tracked e d (''*.'' @ ext))) d)
                  \<union> set (parse_output (stdout (git_untracked e d (''*.'' @ ext))) d)))
    | Some LaunchFailed \<Rightarrow> fst (expand_exts e d True exts acc) = Inl OSError
    | Some (Exited rc out) \<Rightarrow> fst (expand_exts e d True exts acc) = Inl (NotGitProjectError d))"
proof (induction exts arbitrary: acc)
  case Nil
  then show ?case by (simp add: git_queries_Nil)
next
  case (Cons ext exts)
  let ?t = "git_tracked e d (''*.'' @ ext)"
  let ?u = "git_untracked e d (''*.'' @ ext)"
  show ?case
  proof (cases "succeeded ?t")
    case False
    then show ?thesis
      by (cases ?t) (simp_all add: git_queries_Cons check_output_cases succeeded_def Let_def
            except_called_process_error_def)
  next
    case t: True
    show ?thesis
    proof (cases "succeeded ?u")
      case False
      with t show ?thesis
        by (cases ?u) (simp_all add: git_queries_Cons check_output_cases succeeded_def Let_def
            except_called_process_error_def)
    next
      case u: True
      let ?acc = "union_set (union_set acc (parse_output (stdout ?t) d)) (parse_output (stdout ?u) d)"
      have step: "fst (expand_exts e d True (ext # exts) acc) = fst (expand_exts e d True exts ?acc)"
        using t u by (simp add: check_output_cases case_prod_beta Let_def)
      have acc: "set ?acc = set acc \<union> set (parse_output (stdout ?t) d) \<union> set (parse_output (stdout ?u) d)"
        by (simp add: set_union_set)
      from Cons.IH [of ?acc] t u show ?thesis
        unfolding step git_queries_Cons acc
        by (auto split: option.splits proc_result.splits)
    qed
  qed
qed

lemma expand_exts_find:
  assumes "\<forall>ext\<in>set exts. run_find e d (''*.'' @ ext) \<noteq> LaunchFailed"
  shows "\<exists>xs. fst (expand_exts e d False exts acc) = Inr xs
           \<and> set xs = set acc \<union>
                (\<Union>ext\<in>set exts. set (parse_output (stdout (run_find e d (''*.'' @ ext))) (Path ''.'')))"
  using assms
proof (induction exts arbitrary: acc)
  case Nil
  then show ?case by simp
next
  case (Cons ext exts)
  then obtain rc out where r: "run_find e d (''*.'' @ ext) = Exited rc out"
    by (cases "run_find e d (''*.'' @ ext)") auto
  let ?acc = "union_set acc (parse_output out (Path ''.''))"
  have step: "fst (expand_exts e d False (ext # exts) acc) = fst (expand_exts e d False exts ?acc)"
    using r by (simp add: case_prod_beta Let_def)
  from Cons.prems have "\<forall>ext\<in>set exts. run_find e d (''*.'' @ ext) \<noteq> LaunchFailed"
    by simp
  from Cons.IH [OF this, of ?acc] r show ?case
    unfolding step by (auto simp: set_union_set stdout_def)
qed

lemma partition_events_append:
  "list_ex is_listing (map AskIsDir ps @ evs) = list_ex is_listing evs"
  by (auto simp: list_ex_iff is_listing_def)

subsubsection \<open>Calls of the manager\<close>

lemma triple_of_fst: "fst x = a \<Longrightarrow> x = (a, fst (snd x), snd (snd x))"
  by (cases x) auto

lemma filtered_files_hit:
  "tm_filtered_targets tm lang = Some S \<Longrightarrow> filtered_files tm e lang = (Inr S, tm, [])"
  by (simp add: filtered_files_def)

lemma filtered_files_Inr_cache:
  "filtered_files tm e lang = (Inr S, tm', evs) \<Longrightarrow> tm_filtered_targets tm' lang = Some S"
  by (auto simp: filtered_files_def Let_def split: option.splits sum.splits prod.splits)

lemma filtered_files_Inl_same:
  "filtered_files tm e lang = (Inl err, tm', evs) \<Longrightarrow> tm' = tm"
  by (auto simp: filtered_files_def Let_def split: option.splits sum.splits prod.splits)

lemma filtered_files_keeps_entry:
  "tm_filtered_targets tm l = Some S \<Longrightarrow>
     tm_filtered_targets (fst (snd (filtered_files tm e lang))) l = Some S"
  by (cases "l = lang")
     (auto simp: filtered_files_def Let_def split: option.splits sum.splits prod.splits)

lemma filtered_files_keeps_config:
  "tm_targets (fst (snd (filtered_files tm e lang))) = tm_targets tm
   \<and> tm_includes (fst (snd (filtered_files tm e lang))) = tm_includes tm
   \<and> tm_excludes (fst (snd (filtered_files tm e lang))) = tm_excludes tm
   \<and> tm_visible_to_git_only (fst (snd (filtered_files tm e lang))) = tm_visible_to_git_only tm"
  by (auto simp: filtered_files_def Let_def split: option.splits sum.splits prod.splits)

lemma after_calls_keeps_entry:
  "tm_filtered_targets tm l = Some S \<Longrightarrow> tm_filtered_targets (after_calls tm cs) l = Some S"
proof (induction cs arbitrary: tm)
  case Nil
  then show ?case by simp
next
  case (Cons c cs)
  obtain e lang where c: "c = (e, lang)" by (cases c)
  from Cons.prems have "tm_filtered_targets (fst (snd (filtered_files tm e lang))) l = Some S"
    by (rule filtered_files_keeps_entry)
  then show ?case using Cons.IH c by simp
qed

lemma filtered_files_miss:
  assumes "tm_filtered_targets tm lang = None"
    and "filtered_files tm e lang = (Inr S, tm', evs)"
  shows "\<exists>explicit_files directories.
           partition_set (\<lambda>p. not_raise (is_dir e p)) (resolve_targets (tm_targets tm))
             = Inr (explicit_files, directories)
           \<and> set explicit_files \<subseteq> set S
           \<and> tm' = tm\<lparr>tm_filtered_targets := (tm_filtered_targets tm)(lang \<mapsto> S)\<rparr>"
  using assms
  by (auto simp: filtered_files_def Let_def set_union_set
           split: option.splits sum.splits prod.splits)

lemma filtered_files_miss_explicit:
  assumes "tm_filtered_targets tm lang = None"
    and "filtered_files tm e lang = (Inr S, tm', evs)"
  shows "{p \<in> set (resolve_targets (tm_targets tm)). fs e p = Some File} \<subseteq> set S"
proof
  fix p assume "p \<in> {p \<in> set (resolve_targets (tm_targets tm)). fs e p = Some File}"
  then have p: "p \<in> set (resolve_targets (tm_targets tm))" and f: "fs e p = Some File"
    by simp_all
  from filtered_files_miss [OF assms] obtain explicit_files directories
    where part: "partition_set (\<lambda>p. not_raise (is_dir e p)) (resolve_targets (tm_targets tm))
             = Inr (explicit_files, directories)"
      and sub: "set explicit_files \<subseteq> set S"
    by blast
  from partition_set_Inr [OF part] p
  have ex: "set explicit_files
              = {x \<in> set (resolve_targets (tm_targets tm)). not_raise (is_dir e x) = Inr True}"
    and ans: "not_raise (is_dir e p) = Inr True \<or> not_raise (is_dir e p) = Inr False"
    by blast+
  from ans f have "is_dir e p = Inr False"
    by (auto simp: not_raise_simps dest: is_dir_file)
  with ex p sub show "p \<in> set S"
    by (auto simp: not_raise_simps)
qed

lemma filtered_files_keeps_explicit:
  assumes "\<forall>l S. tm_filtered_targets tm l = Some S \<longrightarrow>
             {p \<in> set (resolve_targets (tm_targets tm)). fs e p = Some File} \<subseteq> set S"
  shows "\<forall>l S. tm_filtered_targets (fst (snd (filtered_files tm e lang))) l = Some S \<longrightarrow>
             {p \<in> set (resolve_targets (tm_targets tm)). fs e p = Some File} \<subseteq> set S"
proof (cases "tm_filtered_targets tm lang")
  case (Some a)
  then show ?thesis using assms by (simp add: filtered_files_hit)
next
  case None
  obtain r tm' evs where f: "filtered_files tm e lang = (r, tm', evs)"
    by (cases "filtered_files tm e lang") auto
  show ?thesis
  proof (cases r)
    case (Inl err)
    with f have "tm' = tm" by (simp add: filtered_files_Inl_same)
    with f assms show ?thesis by simp
  next
    case (Inr S)
    with f None have sub: "{p \<in> set (resolve_targets (tm_targets tm)). fs e p = Some File} \<subseteq> set S"
      by (simp add: filtered_files_miss_explicit)
    from f Inr None have "tm' = tm\<lparr>tm_filtered_targets := (tm_filtered_targets tm)(lang \<mapsto> S)\<rparr>"
      using filtered_files_miss [of tm lang e S tm' evs] by auto
    with f sub assms show ?thesis by auto
  qed
qed

lemma after_calls_keeps_explicit:
  assumes "\<forall>l S. tm_filtered_targets tm l = Some S \<longrightarrow>
             {p \<in> set (resolve_targets (tm_targets tm)). fs e p = Some File} \<subseteq> set S"
  shows "tm_targets (after_calls tm (map (Pair e) ls)) = tm_targets tm \<and>
         (\<forall>l S. tm_filtered_targets (after_calls tm (map (Pair e) ls)) l = Some S \<longrightarrow>
             {p \<in> set (resolve_targets (tm_targets tm)). fs e p = Some File} \<subseteq> set S)"
  using assms
proof (induction ls arbitrary: tm)
  case Nil
  then show ?case by simp
next
  case (Cons lang ls)
  let ?tm = "fst (snd (filtered_files tm e lang))"
  have t: "tm_targets ?tm = tm_targets tm" by (simp add: filtered_files_keeps_config)
  from Cons.prems have "\<forall>l S. tm_filtered_targets ?tm l = Some S \<longrightarrow>
             {p \<in> set (resolve_targets (tm_targets tm)). fs e p = Some File} \<subseteq> set S"
    by (rule filtered_files_keeps_explicit)
  with t have "\<forall>l S. tm_filtered_targets ?tm l = Some S \<longrightarrow>
             {p \<in> set (resolve_targets (tm_targets ?tm)). fs e p = Some File} \<subseteq> set S"
    by simp
  from Cons.IH [OF this] t show ?case by simp
qed

lemma filtered_files_explicit:
  assumes inv: "\<forall>l S. tm_filtered_targets tm l = Some S \<longrightarrow>
             {p \<in> set (resolve_targets (tm_targets tm)). fs e p = Some File} \<subseteq> set S"
    and f: "filtered_files tm e lang = (Inr S, tm', evs)"
  shows "{p \<in> set (resolve_targets (tm_targets tm)). fs e p = Some File} \<subseteq> set S"
proof (cases "tm_filtered_targets tm lang")
  case None
  from None f show ?thesis by (rule filtered_files_miss_explicit)
next
  case (Some a)
  with f have "a = S" by (simp add: filtered_files_hit)
  with Some inv show ?thesis by blast
qed

lemma filtered_files_miss_eq:
  assumes "tm_filtered_targets tm lang = None"
  shows "filtered_files tm e lang =
     (let tgts = resolve_targets (tm_targets tm);
          evs0 = map AskIsDir (partition_asked (\<lambda>p. not_raise (is_dir e p)) tgts)
      in case partition_set (\<lambda>p. not_raise (is_dir e p)) tgts of
           Inl err \<Rightarrow> (Inl err, tm, evs0)
         | Inr (explicit_files, directories) \<Rightarrow>
            (case expand_targets e directories lang (tm_visible_to_git_only tm) of
               (Inl err, evs1) \<Rightarrow> (Inl err, tm, evs0 @ evs1)
             | (Inr expanded, evs1) \<Rightarrow>
                (case filter_includes expanded (tm_includes tm) of
                   Inl err \<Rightarrow> (Inl err, tm, evs0 @ evs1)
                 | Inr included \<Rightarrow>
                    (case filter_excludes included (tm_excludes tm) of
                       Inl err \<Rightarrow> (Inl err, tm, evs0 @ evs1)
                     | Inr kept \<Rightarrow>
                        (let result = union_set kept explicit_files
                         in (Inr result,
                             tm\<lparr>tm_filtered_targets :=
                                    (tm_filtered_targets tm)(lang \<mapsto> result)\<rparr>,
                             evs0 @ evs1))))))"
  using assms by (simp add: filtered_files_def)

lemma get_files_events:
  "snd (get_files tm e lang incls excls) = snd (filtered_files tm e lang)"
  by (cases "filtered_files tm e lang")
     (auto simp: get_files_def split: sum.splits)

lemma get_files_Inl:
  "fst (filtered_files tm e lang) = Inl err \<Longrightarrow> fst (get_files tm e lang incls excls) = Inl err"
  by (cases "filtered_files tm e lang") (auto simp: get_files_def)

lemma get_files_Inr:
  "fst (filtered_files tm e lang) = Inr S \<Longrightarrow>
     fst (get_files tm e lang incls excls)
       = (case filter_includes S incls of
            Inl err \<Rightarrow> Inl err
          | Inr included \<Rightarrow> filter_excludes included excls)"
  by (cases "filtered_files tm e lang") (auto simp: get_files_def split: sum.splits)

subsection \<open>Targets that do not exist\<close>

text \<open>
  Claim C1: a target that does not exist on disk is dropped without an error and is in
  no set that \<open>filtered_files\<close> returns and in no list that \<open>get_files\<close> returns. The
  code does not do this. \<open>expand_targets\<close> skips a target that does not exist, but
  \<open>filtered_files\<close> hands it the directories only: a path that does not exist is not a
  directory, so the partition puts it among the explicit files, and the result contains
  it. Here the only target is \<open>missing.py\<close>, which does not exist.
\<close>

theorem missing_target_in_result:
  "fs src_tree (Path ''missing.py'') = None
   \<and> resolve_targets [''missing.py''] = [Path ''missing.py'']
   \<and> fst (expand_targets src_tree [Path ''missing.py''] ''python'' False) = Inr []
   \<and> fst (filtered_files (TargetManager [] [] [''missing.py''] False) src_tree ''python'')
       = Inr [Path ''missing.py'']
   \<and> fst (get_files (TargetManager [] [] [''missing.py''] False) src_tree ''python'' [] [])
       = Inr [Path ''missing.py'']"
  by code_simp

subsection \<open>Unsupported languages\<close>

text \<open>
  Claim C2, amended. \<open>lang_to_exts\<close> raises \<open>UnknownLanguageError\<close> for a language it does
  not list. \<open>filtered_files\<close> and \<open>get_files\<close> look the language up only when a directory
  is expanded, after the partition has asked the filesystem about every target. On a
  first call for such a language: if one of these questions fails with \<open>OSError\<close>, that
  error is raised; otherwise, if some target is a directory, both calls raise
  \<open>UnknownLanguageError\<close> and leave the manager as it is; otherwise \<open>filtered_files\<close>
  returns the targets, and \<open>get_files\<close> applies the local filters to them, which may remove
  targets or raise \<open>ValueError\<close>, never \<open>UnknownLanguageError\<close>. So each of the two calls
  raises \<open>UnknownLanguageError\<close> exactly when every question is answered and some target
  is a directory. In no case is \<open>find\<close> or \<open>git\<close> run.
\<close>

theorem unknown_language:
  assumes "lang_to_exts lang = Inl err"
    and "tm_filtered_targets tm lang = None"
  shows "err = UnknownLanguageError lang
    \<and> \<not> list_ex is_listing (snd (snd (filtered_files tm e lang)))
    \<and> \<not> list_ex is_listing (snd (snd (get_files tm e lang incls excls)))
    \<and> ((\<exists>p\<in>set (resolve_targets (tm_targets tm)). is_dir e p = Inl OSError) \<longrightarrow>
          fst (filtered_files tm e lang) = Inl OSError
          \<and> fst (snd (filtered_files tm e lang)) = tm
          \<and> fst (get_files tm e lang incls excls) = Inl OSError
          \<and> fst (snd (get_files tm e lang incls excls)) = tm)
    \<and> ((\<forall>p\<in>set (resolve_targets (tm_targets tm)). is_dir e p \<noteq> Inl OSError)
        \<and> (\<exists>p\<in>set (resolve_targets (tm_targets tm)). is_dir e p = Inr True) \<longrightarrow>
          fst (filtered_files tm e lang) = Inl (UnknownLanguageError lang)
          \<and> fst (snd (filtered_files tm e lang)) = tm
          \<and> fst (get_files tm e lang incls excls) = Inl (UnknownLanguageError lang)
          \<and> fst (snd (get_files tm e lang incls excls)) = tm
          \<and> (\<exists>evs1. snd (snd (filtered_files tm e lang))
                      = map AskIsDir (resolve_targets (tm_targets tm)
                                      @ resolve_targets (tm_targets tm)) @ evs1))
    \<and> ((\<forall>p\<in>set (resolve_targets (tm_targets tm)). is_dir e p = Inr False) \<longrightarrow>
          (\<exists>S. fst (filtered_files tm e lang) = Inr S
             \<and> set S = set (resolve_targets (tm_targets tm))
             \<and> fst (get_files tm e lang incls excls)
                 = (case filter_includes S incls of
                      Inl err \<Rightarrow> Inl err
                    | Inr included \<Rightarrow> filter_excludes included excls))
          \<and> fst (get_files tm e lang incls excls) \<noteq> Inl (UnknownLanguageError lang)
          \<and> (\<forall>x. fst (get_files tm e lang incls excls) = Inl x \<longrightarrow> x = ValueError))
    \<and> (fst (filtered_files tm e lang) = Inl (UnknownLanguageError lang) \<longleftrightarrow>
          (\<forall>p\<in>set (resolve_targets (tm_targets tm)). is_dir e p \<noteq> Inl OSError)
          \<and> (\<exists>p\<in>set (resolve_targets (tm_targets tm)). is_dir e p = Inr True))
    \<and> (fst (get_files tm e lang incls excls) = Inl (UnknownLanguageError lang) \<longleftrightarrow>
          (\<forall>p\<in>set (resolve_targets (tm_targets tm)). is_dir e p \<noteq> Inl OSError)
          \<and> (\<exists>p\<in>set (resolve_targets (tm_targets tm)). is_dir e p = Inr True))"
proof -
  let ?tgts = "resolve_targets (tm_targets tm)"
  let ?pred = "\<lambda>p. not_raise (is_dir e p)"
  let ?ff = "filtered_files tm e lang"
  let ?gf = "get_files tm e lang incls excls"
  let ?A = "\<exists>p\<in>set ?tgts. is_dir e p = Inl OSError"
  let ?B = "(\<forall>p\<in>set ?tgts. is_dir e p \<noteq> Inl OSError) \<and> (\<exists>p\<in>set ?tgts. is_dir e p = Inr True)"
  let ?C = "\<forall>p\<in>set ?tgts. is_dir e p = Inr False"
  have err: "err = UnknownLanguageError lang"
    using assms(1) by (rule lang_to_exts_Inl)
  have eq: "?ff =
     (case partition_set ?pred ?tgts of
        Inl err \<Rightarrow> (Inl err, tm, map AskIsDir (partition_asked ?pred ?tgts))
      | Inr (explicit_files, directories) \<Rightarrow>
         (case expand_targets e directories lang (tm_visible_to_git_only tm) of
            (Inl err, evs1) \<Rightarrow> (Inl err, tm, map AskIsDir (partition_asked ?pred ?tgts) @ evs1)
          | (Inr expanded, evs1) \<Rightarrow>
             (case filter_includes expanded (tm_includes tm) of
                Inl err \<Rightarrow> (Inl err, tm, map AskIsDir (partition_asked ?pred ?tgts) @ evs1)
              | Inr included \<Rightarrow>
                 (case filter_excludes included (tm_excludes tm) of
                    Inl err \<Rightarrow> (Inl err, tm, map AskIsDir (partition_asked ?pred ?tgts) @ evs1)
                  | Inr kept \<Rightarrow>
                     (let result = union_set kept explicit_files
                      in (Inr result,
                          tm\<lparr>tm_filtered_targets := (tm_filtered_targets tm)(lang \<mapsto> result)\<rparr>,
                          map AskIsDir (partition_asked ?pred ?tgts) @ evs1))))))"
    using filtered_files_miss_eq [OF assms(2), of e] by (simp add: Let_def)
  have A: "?A \<longrightarrow> ?ff = (Inl OSError, tm, map AskIsDir (partition_asked ?pred ?tgts))"
  proof
    assume ?A
    then have "\<exists>p\<in>set ?tgts. ?pred p = Inl OSError"
      by (simp add: not_raise_simps)
    moreover have "\<forall>p\<in>set ?tgts. \<forall>x. ?pred p = Inl x \<longrightarrow> x = OSError"
      by (auto simp: not_raise_simps is_dir_def split: if_splits)
    ultimately have "partition_set ?pred ?tgts = Inl OSError"
      by (rule partition_set_raises)
    with eq show "?ff = (Inl OSError, tm, map AskIsDir (partition_asked ?pred ?tgts))"
      by simp
  qed
  have part: "\<not> ?A \<longrightarrow> (\<exists>explicit_files directories.
      partition_set ?pred ?tgts = Inr (explicit_files, directories)
      \<and> set explicit_files = {p \<in> set ?tgts. is_dir e p = Inr False}
      \<and> set directories = {p \<in> set ?tgts. is_dir e p = Inr True})"
  proof
    assume "\<not> ?A"
    then have "\<forall>p\<in>set ?tgts. ?pred p = Inr True \<or> ?pred p = Inr False"
      using is_dir_cases [of e] by (auto simp: not_raise_simps)
    then have "\<exists>yes no. partition_set ?pred ?tgts = Inr (yes, no)"
      by (rule partition_set_returns)
    then obtain explicit_files directories
      where p: "partition_set ?pred ?tgts = Inr (explicit_files, directories)"
      by blast
    from partition_set_Inr [OF p]
    have "set explicit_files = {p \<in> set ?tgts. is_dir e p = Inr False}"
      and "set directories = {p \<in> set ?tgts. is_dir e p = Inr True}"
      by (simp_all add: not_raise_simps)
    with p show "\<exists>explicit_files directories.
      partition_set ?pred ?tgts = Inr (explicit_files, directories)
      \<and> set explicit_files = {p \<in> set ?tgts. is_dir e p = Inr False}
      \<and> set directories = {p \<in> set ?tgts. is_dir e p = Inr True}"
      by blast
  qed
  have B: "?B \<longrightarrow> (\<exists>evs1. ?ff = (Inl (UnknownLanguageError lang), tm,
                              map AskIsDir (?tgts @ ?tgts) @ evs1)
                     \<and> \<not> list_ex is_listing evs1)"
  proof
    assume b: ?B
    then have "\<not> ?A" by blast
    with part obtain explicit_files directories
      where p: "partition_set ?pred ?tgts = Inr (explicit_files, directories)"
        and d: "set directories = {p \<in> set ?tgts. is_dir e p = Inr True}"
      by blast
    from d b have ne: "directories \<noteq> []" by auto
    from d have all: "\<forall>t\<in>set directories. is_dir e t = Inr True" by simp
    obtain r evs1 where x: "expand_targets e directories lang (tm_visible_to_git_only tm) = (r, evs1)"
      by (cases "expand_targets e directories lang (tm_visible_to_git_only tm)") auto
    from expand_loop_unknown [OF assms(1) all, of "tm_visible_to_git_only tm" "[]"] ne x err
    have r: "r = Inl (UnknownLanguageError lang)" and l: "\<not> list_ex is_listing evs1"
      by (simp_all add: expand_targets_def)
    from p have q: "partition_asked ?pred ?tgts = ?tgts @ ?tgts"
      by (rule partition_asked_returns)
    from eq p x r have "?ff = (Inl (UnknownLanguageError lang), tm,
        map AskIsDir (partition_asked ?pred ?tgts) @ evs1)"
      by simp
    then have "?ff = (Inl (UnknownLanguageError lang), tm, map AskIsDir (?tgts @ ?tgts) @ evs1)"
      unfolding q .
    with l show "\<exists>evs1. ?ff = (Inl (UnknownLanguageError lang), tm,
                              map AskIsDir (?tgts @ ?tgts) @ evs1)
                     \<and> \<not> list_ex is_listing evs1"
      by blast
  qed
  have C: "?C \<longrightarrow> (\<exists>S tm' evs. ?ff = (Inr S, tm', evs) \<and> set S = set ?tgts \<and> \<not> list_ex is_listing evs)"
  proof
    assume c: ?C
    then have "\<not> ?A" by auto
    with part obtain explicit_files directories
      where p: "partition_set ?pred ?tgts = Inr (explicit_files, directories)"
        and x: "set explicit_files = {p \<in> set ?tgts. is_dir e p = Inr False}"
        and d: "set directories = {p \<in> set ?tgts. is_dir e p = Inr True}"
      by blast
    from d c have "set directories = {}" by auto
    then have dn: "directories = []" by simp
    from x c have xs: "set explicit_files = set ?tgts" by auto
    have i: "filter_includes [] (tm_includes tm) = Inr []"
      by (simp add: filter_includes_def)
    have f: "filter_excludes [] (tm_excludes tm) = Inr []"
      by (simp add: filter_excludes_def)
    from eq p dn i f have "?ff = (Inr (union_set [] explicit_files),
        tm\<lparr>tm_filtered_targets := (tm_filtered_targets tm)(lang \<mapsto> union_set [] explicit_files)\<rparr>,
        map AskIsDir (partition_asked ?pred ?tgts) @ [])"
      by (simp add: expand_targets_def Let_def)
    moreover have "set (union_set [] explicit_files) = set ?tgts"
      using xs by (simp add: set_union_set)
    moreover have "\<not> list_ex is_listing (map AskIsDir (partition_asked ?pred ?tgts) @ [])"
      using partition_events by simp
    ultimately show "\<exists>S tm' evs. ?ff = (Inr S, tm', evs) \<and> set S = set ?tgts \<and> \<not> list_ex is_listing evs"
      by blast
  qed
  have cases: "?A \<or> ?B \<or> ?C"
    using is_dir_cases [of e] by blast
  have evs: "\<not> list_ex is_listing (snd (snd ?ff))"
  proof -
    from cases show ?thesis
    proof (elim disjE)
      assume ?A
      with A show ?thesis using partition_events by simp
    next
      assume ?B
      with B obtain evs1 where "?ff = (Inl (UnknownLanguageError lang), tm,
                              map AskIsDir (?tgts @ ?tgts) @ evs1)"
          and "\<not> list_ex is_listing evs1"
        by blast
      then show ?thesis by (simp only: snd_conv partition_events_append simp_thms)
    next
      assume ?C
      with C show ?thesis by auto
    qed
  qed
  then have gevs: "\<not> list_ex is_listing (snd (snd ?gf))"
    by (simp add: get_files_events)
  have gtm: "fst (snd ?gf) = fst (snd ?ff)"
    by (simp add: get_files_events)
  have a: "?A \<longrightarrow> fst ?ff = Inl OSError \<and> fst (snd ?ff) = tm \<and> fst ?gf = Inl OSError
        \<and> fst (snd ?gf) = tm"
    using A gtm by (auto simp: get_files_Inl)
  have b: "?B \<longrightarrow> fst ?ff = Inl (UnknownLanguageError lang) \<and> fst (snd ?ff) = tm
        \<and> fst ?gf = Inl (UnknownLanguageError lang)
        \<and> fst (snd ?gf) = tm
        \<and> (\<exists>evs1. snd (snd ?ff) = map AskIsDir (?tgts @ ?tgts) @ evs1)"
  proof
    assume ?B
    with B obtain evs1 where f: "?ff = (Inl (UnknownLanguageError lang), tm,
                              map AskIsDir (?tgts @ ?tgts) @ evs1)"
      by blast
    then have 1: "fst ?ff = Inl (UnknownLanguageError lang)" and 2: "fst (snd ?ff) = tm"
      and 3: "snd (snd ?ff) = map AskIsDir (?tgts @ ?tgts) @ evs1"
      by simp_all
    from 1 have 4: "fst ?gf = Inl (UnknownLanguageError lang)" by (rule get_files_Inl)
    from 2 gtm have 5: "fst (snd ?gf) = tm" by simp
    from 1 2 3 4 5 show "fst ?ff = Inl (UnknownLanguageError lang) \<and> fst (snd ?ff) = tm
        \<and> fst ?gf = Inl (UnknownLanguageError lang)
        \<and> fst (snd ?gf) = tm
        \<and> (\<exists>evs1. snd (snd ?ff) = map AskIsDir (?tgts @ ?tgts) @ evs1)"
      by blast
  qed
  have c: "?C \<longrightarrow> (\<exists>S. fst ?ff = Inr S \<and> set S = set ?tgts
             \<and> fst ?gf = (case filter_includes S incls of
                      Inl err \<Rightarrow> Inl err
                    | Inr included \<Rightarrow> filter_excludes included excls))
          \<and> fst ?gf \<noteq> Inl (UnknownLanguageError lang)
          \<and> (\<forall>x. fst ?gf = Inl x \<longrightarrow> x = ValueError)"
  proof
    assume ?C
    with C obtain S tm' evs where f: "?ff = (Inr S, tm', evs)" and s: "set S = set ?tgts"
      by blast
    then have "fst ?ff = Inr S" by simp
    then have g: "fst ?gf = (case filter_includes S incls of
                      Inl err \<Rightarrow> Inl err
                    | Inr included \<Rightarrow> filter_excludes included excls)"
      by (rule get_files_Inr)
    have v: "\<forall>x. fst ?gf = Inl x \<longrightarrow> x = ValueError"
    proof (intro allI impI)
      fix x assume "fst ?gf = Inl x"
      with g have "(case filter_includes S incls of
                      Inl err \<Rightarrow> Inl err
                    | Inr included \<Rightarrow> filter_excludes included excls)
                   = Inl x"
        by simp
      then show "x = ValueError"
        by (rule local_filters_error)
    qed
    then have "fst ?gf \<noteq> Inl (UnknownLanguageError lang)"
      by auto
    with f s g v show "(\<exists>S. fst ?ff = Inr S \<and> set S = set ?tgts
             \<and> fst ?gf = (case filter_includes S incls of
                      Inl err \<Rightarrow> Inl err
                    | Inr included \<Rightarrow> filter_excludes included excls))
          \<and> fst ?gf \<noteq> Inl (UnknownLanguageError lang)
          \<and> (\<forall>x. fst ?gf = Inl x \<longrightarrow> x = ValueError)"
      by auto
  qed
  have iff_f: "fst ?ff = Inl (UnknownLanguageError lang) \<longleftrightarrow> ?B"
  proof
    assume u: "fst ?ff = Inl (UnknownLanguageError lang)"
    show ?B
    proof (rule ccontr)
      assume "\<not> ?B"
      with cases have "?A \<or> ?C" by blast
      then show False
      proof
        assume ?A
        with a u show False by simp
      next
        assume ?C
        with c u show False by auto
      qed
    qed
  next
    assume ?B
    with b show "fst ?ff = Inl (UnknownLanguageError lang)" by simp
  qed
  have iff_g: "fst ?gf = Inl (UnknownLanguageError lang) \<longleftrightarrow> ?B"
  proof
    assume u: "fst ?gf = Inl (UnknownLanguageError lang)"
    show ?B
    proof (rule ccontr)
      assume "\<not> ?B"
      with cases have "?A \<or> ?C" by blast
      then show False
      proof
        assume ?A
        with a u show False by simp
      next
        assume ?C
        with c u show False by simp
      qed
    qed
  next
    assume ?B
    with b show "fst ?gf = Inl (UnknownLanguageError lang)" by simp
  qed
  from err evs gevs a b c iff_f iff_g show ?thesis
    by (intro conjI)
qed

theorem unknown_language_witness:
  "lang_to_exts ''ruby'' = Inl (UnknownLanguageError ''ruby'')
   \<and> fst (filtered_files (TargetManager [] [] [''src/a.py'', ''src''] False) src_tree ''ruby'')
       = Inl (UnknownLanguageError ''ruby'')
   \<and> fst (get_files (TargetManager [] [] [''src/a.py'', ''src''] False) src_tree ''ruby'' [] [])
       = Inl (UnknownLanguageError ''ruby'')
   \<and> fst (filtered_files (TargetManager [] [] [''src'', ''locked/x.rb''] False) src_tree_locked ''ruby'')
       = Inl OSError
   \<and> fst (get_files (TargetManager [] [] [''src/a.py''] False) src_tree ''ruby'' [] [''a*''])
       = Inr []
   \<and> fst (get_files (TargetManager [] [] [''src/a.py''] False) src_tree ''ruby'' [] [[]])
       = Inl ValueError
   \<and> fst (get_files (TargetManager [] [] [''src/a.py''] False) src_tree ''ruby'' [] [''a*''])
       \<noteq> Inl (UnknownLanguageError ''ruby'')"
proof -
  let ?B = "TargetManager [] [] [''src/a.py'', ''src''] False"
  let ?A = "TargetManager [] [] [''src'', ''locked/x.rb''] False"
  let ?C = "TargetManager [] [] [''src/a.py''] False"
  have l: "lang_to_exts ''ruby'' = Inl (UnknownLanguageError ''ruby'')"
    by code_simp
  have cB: "tm_filtered_targets ?B ''ruby'' = None"
    by (simp add: TargetManager_def)
  have cA: "tm_filtered_targets ?A ''ruby'' = None"
    by (simp add: TargetManager_def)
  have cC: "tm_filtered_targets ?C ''ruby'' = None"
    by (simp add: TargetManager_def)
  have hB: "(\<forall>p\<in>set (resolve_targets (tm_targets ?B)). is_dir src_tree p \<noteq> Inl OSError)
      \<and> (\<exists>p\<in>set (resolve_targets (tm_targets ?B)). is_dir src_tree p = Inr True)"
    by code_simp
  have hA: "\<exists>p\<in>set (resolve_targets (tm_targets ?A)). is_dir src_tree_locked p = Inl OSError"
    by code_simp
  have hC: "\<forall>p\<in>set (resolve_targets (tm_targets ?C)). is_dir src_tree p = Inr False"
    by code_simp
  from unknown_language [OF l cB, of src_tree "[]" "[]"] hB
  have b: "fst (filtered_files ?B src_tree ''ruby'') = Inl (UnknownLanguageError ''ruby'')
      \<and> fst (get_files ?B src_tree ''ruby'' [] []) = Inl (UnknownLanguageError ''ruby'')"
    by blast
  from unknown_language [OF l cA, of src_tree_locked "[]" "[]"] hA
  have a: "fst (filtered_files ?A src_tree_locked ''ruby'') = Inl OSError"
    by blast
  from unknown_language [OF l cC, of src_tree "[]" "[''a*'']"] hC
  have c: "fst (get_files ?C src_tree ''ruby'' [] [''a*'']) \<noteq> Inl (UnknownLanguageError ''ruby'')"
    by blast
  have g1: "fst (get_files ?C src_tree ''ruby'' [] [''a*'']) = Inr []"
    by code_simp
  have g2: "fst (get_files ?C src_tree ''ruby'' [] [[]]) = Inl ValueError"
    by code_simp
  from l b a c g1 g2 show ?thesis by blast
qed

text \<open>
  The claim as stated fails for a target that is a file: \<open>ruby\<close> is not supported, and
  both calls return the file. Where the only target is the directory \<open>src\<close>, the error
  comes after four questions to the filesystem.
\<close>

theorem unknown_language_counterexample:
  "lang_to_exts ''ruby'' = Inl (UnknownLanguageError ''ruby'')
   \<and> fst (filtered_files (TargetManager [] [] [''src/a.py''] False) src_tree ''ruby'')
       = Inr [Path ''src/a.py'']
   \<and> fst (get_files (TargetManager [] [] [''src/a.py''] False) src_tree ''ruby'' [] [])
       = Inr [Path ''src/a.py'']
   \<and> snd (snd (filtered_files (TargetManager [] [] [''src''] False) src_tree ''ruby''))
       = [AskIsDir (Path ''src''), AskIsDir (Path ''src''),
          AskExists (Path ''src''), AskIsDir (Path ''src'')]"
  by code_simp

subsection \<open>Explicit files\<close>

text \<open>
  Claim C3. Take a manager built by the constructor from any include and exclude
  patterns, and used for any calls while the filesystem is \<open>e\<close>. A target that resolves
  to a path that is a file belongs to every set that \<open>filtered_files\<close> returns, for every
  language.
\<close>

theorem explicit_file_in_result:
  assumes "p \<in> set (resolve_targets tgts)"
    and "fs e p = Some File"
    and "filtered_files (after_calls (TargetManager incls excls tgts git) (map (Pair e) ls)) e lang
           = (Inr S, tm', evs)"
  shows "p \<in> set S"
proof -
  let ?init = "TargetManager incls excls tgts git"
  let ?tm = "after_calls ?init (map (Pair e) ls)"
  have t0: "tm_targets ?init = tgts" by (simp add: TargetManager_def)
  have "\<forall>l S. tm_filtered_targets ?init l = Some S \<longrightarrow>
          {p \<in> set (resolve_targets (tm_targets ?init)). fs e p = Some File} \<subseteq> set S"
    by (simp add: TargetManager_def)
  then have both: "tm_targets ?tm = tm_targets ?init \<and>
         (\<forall>l S. tm_filtered_targets ?tm l = Some S \<longrightarrow>
             {p \<in> set (resolve_targets (tm_targets ?init)). fs e p = Some File} \<subseteq> set S)"
    by (rule after_calls_keeps_explicit)
  from both have t: "tm_targets ?tm = tgts"
    unfolding t0 by (rule conjunct1)
  from both have "\<forall>l S. tm_filtered_targets ?tm l = Some S \<longrightarrow>
          {p \<in> set (resolve_targets tgts). fs e p = Some File} \<subseteq> set S"
    unfolding t0 by (rule conjunct2)
  then have inv: "\<forall>l S. tm_filtered_targets ?tm l = Some S \<longrightarrow>
          {p \<in> set (resolve_targets (tm_targets ?tm)). fs e p = Some File} \<subseteq> set S"
    unfolding t .
  from filtered_files_explicit [OF inv assms(3)] t
  have "{p \<in> set (resolve_targets tgts). fs e p = Some File} \<subseteq> set S" by simp
  with assms(1) assms(2) show ?thesis by blast
qed

theorem explicit_file_in_result_witness:
  "Path ''src/a.py'' \<in> set (resolve_targets [''src/a.py'', ''src''])
   \<and> fs src_tree (Path ''src/a.py'') = Some File
   \<and> match_glob (Path ''src/a.py'') [''*.py''] = Inr True
   \<and> fst (filtered_files
            (after_calls (TargetManager [] [''*.py''] [''src/a.py'', ''src''] False)
               (map (Pair src_tree) [''python'']))
            src_tree ''python'')
      = Inr [Path ''src/b.pyi'', Path ''src/a.py'']
   \<and> Path ''src/a.py'' \<in> set [Path ''src/b.pyi'', Path ''src/a.py'']"
proof -
  have p: "Path ''src/a.py'' \<in> set (resolve_targets [''src/a.py'', ''src''])"
    by code_simp
  have k: "fs src_tree (Path ''src/a.py'') = Some File"
    by code_simp
  have m: "match_glob (Path ''src/a.py'') [''*.py''] = Inr True"
    by code_simp
  have a: "fst (filtered_files
            (after_calls (TargetManager [] [''*.py''] [''src/a.py'', ''src''] False)
               (map (Pair src_tree) [''python'']))
            src_tree ''python'')
      = Inr [Path ''src/b.pyi'', Path ''src/a.py'']"
    by code_simp
  from explicit_file_in_result [OF p k triple_of_fst [OF a]] p k m a show ?thesis
    by blast
qed

subsection \<open>Empty pattern lists\<close>

text \<open>
  Claim C4. With an empty list of include patterns \<open>filter_includes\<close> returns the set it
  was given, and with an empty list of exclude patterns \<open>filter_excludes\<close> returns the
  set it was given: neither raises and neither removes an element. The hypothesis says
  that the list stands for a Python set.
\<close>

theorem empty_patterns_keep_all:
  "distinct S \<Longrightarrow> filter_includes S [] = Inr S \<and> filter_excludes S [] = Inr S"
proof -
  assume d: "distinct S"
  have "filter_raise (\<lambda>elem. case match_glob elem [] of Inl err \<Rightarrow> Inl err | Inr b \<Rightarrow> Inr (\<not> b)) S
          = Inr (filter (\<lambda>x. True) S)"
    by (rule filter_raise_total) (simp add: match_glob_Nil)
  with d show ?thesis by (simp add: filter_includes_def filter_excludes_def)
qed

theorem empty_patterns_keep_all_witness:
  "distinct [Path ''src/a.py'', Path ''src/b.pyi'']
   \<and> filter_includes [Path ''src/a.py'', Path ''src/b.pyi''] [] = Inr [Path ''src/a.py'', Path ''src/b.pyi'']
   \<and> filter_excludes [Path ''src/a.py'', Path ''src/b.pyi''] [] = Inr [Path ''src/a.py'', Path ''src/b.pyi'']"
proof -
  have d: "distinct [Path ''src/a.py'', Path ''src/b.pyi'']"
    by code_simp
  show ?thesis
    using d empty_patterns_keep_all [OF d] by simp
qed

subsection \<open>Exclusion\<close>

text \<open>
  Claim C5. When \<open>filter_excludes S P\<close> returns a set, \<open>match_glob\<close> returns false on
  each of its elements: neither the element nor any of its ancestors matches a pattern
  of \<open>P\<close>. The returned set is a subset of \<open>S\<close>.
\<close>

theorem filter_excludes_sound:
  "filter_excludes S P = Inr R \<Longrightarrow>
     (\<forall>e\<in>set R. match_glob e P = Inr False
        \<and> (\<forall>q\<in>set (e # parents e). \<forall>g\<in>set P. path_match q g = Inr False))
     \<and> set R \<subseteq> set S"
proof -
  assume a: "filter_excludes S P = Inr R"
  have R: "set R = {e \<in> set S. match_glob e P = Inr False}"
    by (rule filter_excludes_Inr [OF a])
  have "\<forall>e\<in>set R. match_glob e P = Inr False
        \<and> (\<forall>q\<in>set (e # parents e). \<forall>g\<in>set P. path_match q g = Inr False)"
  proof
    fix e assume "e \<in> set R"
    with R have m: "match_glob e P = Inr False" by simp
    then have "\<forall>q\<in>set (e # parents e). \<forall>g\<in>set P. path_match q g = Inr False"
      by (simp only: match_glob_False_iff)
    with m show "match_glob e P = Inr False
        \<and> (\<forall>q\<in>set (e # parents e). \<forall>g\<in>set P. path_match q g = Inr False)" ..
  qed
  moreover have "set R \<subseteq> set S" using R by auto
  ultimately show ?thesis ..
qed

theorem filter_excludes_sound_witness:
  "filter_excludes [Path ''project/tests/foo.py'', Path ''project/x.py''] [''tests'', ''*.txt'']
     = Inr [Path ''project/x.py'']
   \<and> match_glob (Path ''project/x.py'') [''tests'', ''*.txt''] = Inr False
   \<and> path_match (Path ''project'') ''tests'' = Inr False"
proof -
  have a: "filter_excludes [Path ''project/tests/foo.py'', Path ''project/x.py''] [''tests'', ''*.txt'']
        = Inr [Path ''project/x.py'']"
    by code_simp
  have e: "Path ''project/x.py'' \<in> set [Path ''project/x.py'']"
    by simp
  have p: "Path ''project'' \<in> set (Path ''project/x.py'' # parents (Path ''project/x.py''))"
    by code_simp
  have g: "''tests'' \<in> set [''tests'', ''*.txt'']"
    by simp
  from filter_excludes_sound [OF a] e
  have m: "match_glob (Path ''project/x.py'') [''tests'', ''*.txt''] = Inr False
      \<and> (\<forall>q\<in>set (Path ''project/x.py'' # parents (Path ''project/x.py'')).
            \<forall>g\<in>set [''tests'', ''*.txt'']. path_match q g = Inr False)"
    by blast
  with p g have "path_match (Path ''project'') ''tests'' = Inr False"
    by blast
  with a m show ?thesis by blast
qed

subsection \<open>The cache\<close>

text \<open>
  Claim C6. Once \<open>filtered_files\<close> has returned a set for a language, the next call for
  that language returns the same set, leaves the manager as it is and causes no event:
  it asks the filesystem nothing and runs neither \<open>find\<close> nor \<open>git\<close>, whatever the
  world has become. The same holds after any further calls, for any languages and in any
  worlds: the entry of the cache is never written again.
\<close>

theorem filtered_files_cached:
  "filtered_files tm e1 lang = (Inr S, tm1, evs1) \<Longrightarrow>
     filtered_files tm1 e2 lang = (Inr S, tm1, [])
     \<and> filtered_files (after_calls tm1 cs) e3 lang = (Inr S, after_calls tm1 cs, [])"
proof -
  assume "filtered_files tm e1 lang = (Inr S, tm1, evs1)"
  then have c: "tm_filtered_targets tm1 lang = Some S"
    by (rule filtered_files_Inr_cache)
  then have "tm_filtered_targets (after_calls tm1 cs) lang = Some S"
    by (rule after_calls_keeps_entry)
  with c show ?thesis by (simp add: filtered_files_hit)
qed

theorem filtered_files_cached_witness:
  "fst (filtered_files (TargetManager [] [] [''src''] False) src_tree ''python'')
     = Inr [Path ''src/a.py'', Path ''src/b.pyi'']
   \<and> filtered_files (fst (snd (filtered_files (TargetManager [] [] [''src''] False) src_tree ''python'')))
         (plain_tree []) ''python''
     = (Inr [Path ''src/a.py'', Path ''src/b.pyi''],
        fst (snd (filtered_files (TargetManager [] [] [''src''] False) src_tree ''python'')), [])
   \<and> fst (filtered_files (TargetManager [] [] [''src''] False) (plain_tree []) ''python'')
     = Inr [Path ''src'']"
proof -
  have a: "fst (filtered_files (TargetManager [] [] [''src''] False) src_tree ''python'')
     = Inr [Path ''src/a.py'', Path ''src/b.pyi'']"
    by code_simp
  have b: "fst (filtered_files (TargetManager [] [] [''src''] False) (plain_tree []) ''python'')
     = Inr [Path ''src'']"
    by code_simp
  from a have h: "filtered_files (TargetManager [] [] [''src''] False) src_tree ''python''
     = (Inr [Path ''src/a.py'', Path ''src/b.pyi''],
        fst (snd (filtered_files (TargetManager [] [] [''src''] False) src_tree ''python'')),
        snd (snd (filtered_files (TargetManager [] [] [''src''] False) src_tree ''python'')))"
    by (rule triple_of_fst)
  from filtered_files_cached [OF h, of "plain_tree []" "[]" "plain_tree []"] a b show ?thesis
    by blast
qed

subsection \<open>Ancestor-or-self matching\<close>

text \<open>
  Claim C7, amended. Whenever \<open>match_glob\<close> returns, it returns true exactly when the
  path or one of its ancestors matches one of the patterns; it does return, rather than
  raise \<open>ValueError\<close>, when no pattern is empty (has no parts). In the scenario,
  \<open>project/tests/foo.py\<close> does not match \<open>tests\<close> itself, its ancestor \<open>project/tests\<close>
  does, so \<open>match_glob\<close> is true and \<open>filter_excludes\<close> removes the path.
\<close>

theorem match_glob_ancestor_or_self:
  "(match_glob p globs = Inr b \<longrightarrow>
      b = (\<exists>q\<in>set (p # parents p). \<exists>g\<in>set globs. path_match q g = Inr True))
   \<and> ((\<forall>g\<in>set globs. parts (Path g) \<noteq> []) \<longrightarrow>
        match_glob p globs = Inr (\<exists>q\<in>set (p # parents p). \<exists>g\<in>set globs. path_match q g = Inr True))
   \<and> path_match (Path ''project/tests/foo.py'') ''tests'' = Inr False
   \<and> path_match (Path ''project/tests'') ''tests'' = Inr True
   \<and> match_glob (Path ''project/tests/foo.py'') [''tests''] = Inr True
   \<and> filter_excludes [Path ''project/tests/foo.py''] [''tests''] = Inr []"
proof (intro conjI impI)
  assume "match_glob p globs = Inr b"
  then show "b = (\<exists>q\<in>set (p # parents p). \<exists>g\<in>set globs. path_match q g = Inr True)"
    by (rule match_glob_returns)
next
  assume "\<forall>g\<in>set globs. parts (Path g) \<noteq> []"
  then show "match_glob p globs = Inr (\<exists>q\<in>set (p # parents p). \<exists>g\<in>set globs. path_match q g = Inr True)"
    by (rule match_glob_total)
next
  show "path_match (Path ''project/tests/foo.py'') ''tests'' = Inr False" by code_simp
  show "path_match (Path ''project/tests'') ''tests'' = Inr True" by code_simp
  show "match_glob (Path ''project/tests/foo.py'') [''tests''] = Inr True" by code_simp
  show "filter_excludes [Path ''project/tests/foo.py''] [''tests''] = Inr []" by code_simp
qed

theorem match_glob_ancestor_or_self_witness:
  "match_glob (Path ''project/tests/foo.py'') [''*.txt'', ''tests''] = Inr True
   \<and> (\<exists>q\<in>set (Path ''project/tests/foo.py'' # parents (Path ''project/tests/foo.py'')).
        \<exists>g\<in>set [''*.txt'', ''tests'']. path_match q g = Inr True)
   \<and> list_all (\<lambda>g. parts (Path g) \<noteq> []) [''*.txt'', ''tests'']"
proof -
  have m: "match_glob (Path ''project/tests/foo.py'') [''*.txt'', ''tests''] = Inr True"
    by code_simp
  have ne: "list_all (\<lambda>g. parts (Path g) \<noteq> []) [''*.txt'', ''tests'']"
    by code_simp
  from match_glob_ancestor_or_self [of "Path ''project/tests/foo.py''" "[''*.txt'', ''tests'']" True] m
  have "\<exists>q\<in>set (Path ''project/tests/foo.py'' # parents (Path ''project/tests/foo.py'')).
        \<exists>g\<in>set [''*.txt'', ''tests'']. path_match q g = Inr True"
    by blast
  with m ne show ?thesis by blast
qed

text \<open>
  The claim as stated fails where an empty pattern stands before a matching one: the
  path \<open>a\<close> matches the pattern \<open>a\<close>, and \<open>match_glob\<close> raises instead of returning true.
\<close>

theorem match_glob_empty_pattern_counterexample:
  "path_match (Path ''a'') ''a'' = Inr True
   \<and> match_glob (Path ''a'') ['''', ''a''] = Inl ValueError
   \<and> \<not> (match_glob (Path ''a'') ['''', ''a''] = Inr True \<longleftrightarrow>
          (\<exists>q\<in>set (Path ''a'' # parents (Path ''a'')). \<exists>g\<in>set ['''', ''a'']. path_match q g = Inr True))"
proof -
  have a: "path_match (Path ''a'') ''a'' = Inr True" by code_simp
  have b: "match_glob (Path ''a'') ['''', ''a''] = Inl ValueError" by code_simp
  from a b show ?thesis by auto
qed

subsection \<open>Expansion under version control\<close>

text \<open>
  Claim C8, amended. For a supported language and \<open>visible_to_git_only\<close>, take the
  queries in the order of the loop: for each extension the tracked files, then the
  untracked files that are not ignored. The first query that does not succeed decides:
  if it ran and exited with a status other than 0, the expansion raises
  \<open>NotGitProjectError\<close> for the directory; if it could not be started, the expansion
  raises the \<open>OSError\<close> of the launch. If every query succeeds, the expansion returns
  the union, over the extensions, of the tracked and the untracked files that the
  outputs list, each joined to the directory.
\<close>

theorem git_expansion:
  assumes "lang_to_exts lang = Inr exts"
  shows "(case List.find (\<lambda>r. \<not> succeeded r) (git_queries e d exts) of
      None \<Rightarrow>
        (\<exists>xs. fst (expand_dir e d lang True) = Inr xs
           \<and> set xs =
                (\<Union>ext\<in>set exts.
                    set (parse_output (stdout (git_tracked e d (''*.'' @ ext))) d)
                  \<union> set (parse_output (stdout (git_untracked e d (''*.'' @ ext))) d)))
    | Some LaunchFailed \<Rightarrow> fst (expand_dir e d lang True) = Inl OSError
    | Some (Exited rc out) \<Rightarrow> fst (expand_dir e d lang True) = Inl (NotGitProjectError d))"
proof -
  have eq: "fst (expand_dir e d lang True) = fst (expand_exts e d True exts [])"
    using assms by (simp add: expand_dir_def)
  show ?thesis
    unfolding eq using expand_exts_git [of e d exts "[]"]
    by (auto split: option.splits proc_result.splits)
qed

theorem git_expansion_witness:
  "lang_to_exts ''python'' = Inr [''py'', ''pyi'']
   \<and> list_all succeeded (git_queries src_repo (Path ''src'') [''py'', ''pyi''])
   \<and> parse_output (stdout (git_tracked src_repo (Path ''src'') ''*.py'')) (Path ''src'') = [Path ''src/a.py'']
   \<and> parse_output (stdout (git_untracked src_repo (Path ''src'') ''*.pyi'')) (Path ''src'') = [Path ''src/b.pyi'']
   \<and> fst (expand_dir src_repo (Path ''src'') ''python'' True) = Inr [Path ''src/a.py'', Path ''src/b.pyi'']
   \<and> git_tracked src_tree (Path ''src'') ''*.py'' = Exited 128 []
   \<and> fst (expand_dir src_tree (Path ''src'') ''python'' True) = Inl (NotGitProjectError (Path ''src''))"
proof -
  have l: "lang_to_exts ''python'' = Inr [''py'', ''pyi'']"
    by code_simp
  have q: "List.find (\<lambda>r. \<not> succeeded r) (git_queries src_tree (Path ''src'') [''py'', ''pyi''])
             = Some (Exited 128 [])"
    by code_simp
  have g: "git_tracked src_tree (Path ''src'') ''*.py'' = Exited 128 []"
    by code_simp
  have s: "list_all succeeded (git_queries src_repo (Path ''src'') [''py'', ''pyi''])"
    by code_simp
  have p1: "parse_output (stdout (git_tracked src_repo (Path ''src'') ''*.py'')) (Path ''src'') = [Path ''src/a.py'']"
    by code_simp
  have p2: "parse_output (stdout (git_untracked src_repo (Path ''src'') ''*.pyi'')) (Path ''src'') = [Path ''src/b.pyi'']"
    by code_simp
  have r: "fst (expand_dir src_repo (Path ''src'') ''python'' True) = Inr [Path ''src/a.py'', Path ''src/b.pyi'']"
    by code_simp
  from git_expansion [OF l, of src_tree "Path ''src''"] q
  have "fst (expand_dir src_tree (Path ''src'') ''python'' True) = Inl (NotGitProjectError (Path ''src''))"
    by simp
  with l s p1 p2 r g show ?thesis by blast
qed

text \<open>
  The claim as stated fails where the tool is unavailable: \<open>git\<close> cannot be started,
  and the error is the \<open>OSError\<close> of the launch, not \<open>NotGitProjectError\<close>.
\<close>

theorem git_expansion_counterexample:
  "git_tracked src_tree_no_git (Path ''src'') ''*.py'' = LaunchFailed
   \<and> fst (expand_dir src_tree_no_git (Path ''src'') ''python'' True) = Inl OSError
   \<and> fst (expand_dir src_tree_no_git (Path ''src'') ''python'' True)
        \<noteq> Inl (NotGitProjectError (Path ''src''))"
proof -
  have a: "git_tracked src_tree_no_git (Path ''src'') ''*.py'' = LaunchFailed"
    by code_simp
  have b: "fst (expand_dir src_tree_no_git (Path ''src'') ''python'' True) = Inl OSError"
    by code_simp
  from a b show ?thesis by simp
qed

subsection \<open>Expansion of a directory\<close>

text \<open>
  Claim C9. Without the restriction to version control, the expansion of a directory is
  the union, over every extension of the language, of the files that \<open>find\<close> lists for
  the extension; nothing else is in it. With the target \<open>src\<close>, no patterns and the
  language \<open>python\<close>, which maps to \<open>py\<close> and \<open>pyi\<close>, the result is the set of
  \<open>src/a.py\<close> and \<open>src/b.pyi\<close>; \<open>src/c.txt\<close> is not in it.
\<close>

theorem scenario_python_directory:
  "(lang_to_exts lang = Inr exts \<and> (\<forall>ext\<in>set exts. run_find e d (''*.'' @ ext) \<noteq> LaunchFailed)
      \<longrightarrow> (\<exists>xs. fst (expand_dir e d lang False) = Inr xs
             \<and> set xs = (\<Union>ext\<in>set exts.
                           set (parse_output (stdout (run_find e d (''*.'' @ ext))) (Path ''.'')))))
   \<and> lang_to_exts ''python'' = Inr [''py'', ''pyi'']
   \<and> run_find src_tree (Path ''src'') ''*.py'' = Exited 0 (''src/a.py'' @ [CHR 0x0A])
   \<and> run_find src_tree (Path ''src'') ''*.pyi'' = Exited 0 (''src/b.pyi'' @ [CHR 0x0A])
   \<and> fst (filtered_files (TargetManager [] [] [''src''] False) src_tree ''python'')
       = Inr [Path ''src/a.py'', Path ''src/b.pyi'']
   \<and> fst (get_files (TargetManager [] [] [''src''] False) src_tree ''python'' [] [])
       = Inr [Path ''src/a.py'', Path ''src/b.pyi'']
   \<and> Path ''src/c.txt'' \<notin> set [Path ''src/a.py'', Path ''src/b.pyi'']"
proof (intro conjI impI)
  assume a: "lang_to_exts lang = Inr exts
      \<and> (\<forall>ext\<in>set exts. run_find e d (''*.'' @ ext) \<noteq> LaunchFailed)"
  then have "fst (expand_dir e d lang False) = fst (expand_exts e d False exts [])"
    by (simp add: expand_dir_def)
  moreover from a have "\<forall>ext\<in>set exts. run_find e d (''*.'' @ ext) \<noteq> LaunchFailed" ..
  from expand_exts_find [OF this, of "[]"]
  have "\<exists>xs. fst (expand_exts e d False exts []) = Inr xs
           \<and> set xs = (\<Union>ext\<in>set exts. set (parse_output (stdout (run_find e d (''*.'' @ ext))) (Path ''.'')))"
    by simp
  ultimately show "\<exists>xs. fst (expand_dir e d lang False) = Inr xs
             \<and> set xs = (\<Union>ext\<in>set exts.
                           set (parse_output (stdout (run_find e d (''*.'' @ ext))) (Path ''.'')))"
    by simp
next
  show "lang_to_exts ''python'' = Inr [''py'', ''pyi'']" by code_simp
  show "run_find src_tree (Path ''src'') ''*.py'' = Exited 0 (''src/a.py'' @ [CHR 0x0A])" by code_simp
  show "run_find src_tree (Path ''src'') ''*.pyi'' = Exited 0 (''src/b.pyi'' @ [CHR 0x0A])" by code_simp
  show "fst (filtered_files (TargetManager [] [] [''src''] False) src_tree ''python'')
       = Inr [Path ''src/a.py'', Path ''src/b.pyi'']" by code_simp
  show "fst (get_files (TargetManager [] [] [''src''] False) src_tree ''python'' [] [])
       = Inr [Path ''src/a.py'', Path ''src/b.pyi'']" by code_simp
  show "Path ''src/c.txt'' \<notin> set [Path ''src/a.py'', Path ''src/b.pyi'']" by code_simp
qed

theorem scenario_python_directory_witness:
  "lang_to_exts ''python'' = Inr [''py'', ''pyi'']
   \<and> list_all (\<lambda>ext. run_find src_tree (Path ''src'') (''*.'' @ ext) \<noteq> LaunchFailed) [''py'', ''pyi'']
   \<and> (\<exists>xs. fst (expand_dir src_tree (Path ''src'') ''python'' False) = Inr xs
         \<and> set xs = (\<Union>ext\<in>set [''py'', ''pyi''].
               set (parse_output (stdout (run_find src_tree (Path ''src'') (''*.'' @ ext))) (Path ''.''))))
   \<and> fst (expand_dir src_tree (Path ''src'') ''python'' False) = Inr [Path ''src/a.py'', Path ''src/b.pyi'']"
proof -
  have l: "lang_to_exts ''python'' = Inr [''py'', ''pyi'']"
    by code_simp
  have r: "list_all (\<lambda>ext. run_find src_tree (Path ''src'') (''*.'' @ ext) \<noteq> LaunchFailed) [''py'', ''pyi'']"
    by code_simp
  then have r': "\<forall>ext\<in>set [''py'', ''pyi'']. run_find src_tree (Path ''src'') (''*.'' @ ext) \<noteq> LaunchFailed"
    unfolding list_all_iff .
  have x: "fst (expand_dir src_tree (Path ''src'') ''python'' False) = Inr [Path ''src/a.py'', Path ''src/b.pyi'']"
    by code_simp
  from scenario_python_directory [of "''python''" "[''py'', ''pyi'']" src_tree "Path ''src''"] l r'
  have "\<exists>xs. fst (expand_dir src_tree (Path ''src'') ''python'' False) = Inr xs
         \<and> set xs = (\<Union>ext\<in>set [''py'', ''pyi''].
               set (parse_output (stdout (run_find src_tree (Path ''src'') (''*.'' @ ext))) (Path ''.'')))"
    by blast
  with l r x show ?thesis by blast
qed

subsection \<open>Local filters\<close>

text \<open>
  Claim C10. The list that \<open>get_files\<close> returns has no duplicates and holds only
  elements of the set that \<open>filtered_files\<close> returns for the language. No path that
  matches a local exclude pattern is in it, and with a non-empty local include list no
  path that matches none of the include patterns is in it; explicitly named files are
  no exception.
\<close>

theorem local_filters_on_explicit_files:
  assumes "get_files tm e lang incls excls = (Inr xs, tm', evs)"
  shows "distinct xs
    \<and> (\<exists>S. filtered_files tm e lang = (Inr S, tm', evs) \<and> set xs \<subseteq> set S)
    \<and> (\<forall>p. match_glob p excls = Inr True \<longrightarrow> p \<notin> set xs)
    \<and> (incls \<noteq> [] \<longrightarrow> (\<forall>p. match_glob p incls = Inr False \<longrightarrow> p \<notin> set xs))"
proof -
  from assms obtain S ys where f: "filtered_files tm e lang = (Inr S, tm', evs)"
    and i: "filter_includes S incls = Inr ys"
    and x: "filter_excludes ys excls = Inr xs"
    by (auto simp: get_files_def split: prod.splits sum.splits)
  from i have ys: "set ys = (if incls = [] then set S else {e \<in> set S. match_glob e incls = Inr True})"
    by (rule filter_includes_Inr)
  from x have xs: "set xs = {e \<in> set ys. match_glob e excls = Inr False}"
    by (rule filter_excludes_Inr)
  from x have "distinct xs" by (rule distinct_filter_excludes)
  moreover from ys xs have "set xs \<subseteq> set S" by (auto split: if_splits)
  moreover from xs have "\<forall>p. match_glob p excls = Inr True \<longrightarrow> p \<notin> set xs" by auto
  moreover from ys xs have "incls \<noteq> [] \<longrightarrow> (\<forall>p. match_glob p incls = Inr False \<longrightarrow> p \<notin> set xs)"
    by auto
  ultimately show ?thesis using f by blast
qed

theorem local_filters_on_explicit_files_witness:
  "fs src_tree (Path ''src/a.py'') = Some File
   \<and> match_glob (Path ''src/a.py'') [''a*''] = Inr True
   \<and> fst (filtered_files (TargetManager [] [] [''src/a.py'', ''src''] False) src_tree ''python'')
       = Inr [Path ''src/a.py'', Path ''src/b.pyi'']
   \<and> fst (get_files (TargetManager [] [] [''src/a.py'', ''src''] False) src_tree ''python'' [] [''a*''])
       = Inr [Path ''src/b.pyi'']
   \<and> Path ''src/a.py'' \<notin> set [Path ''src/b.pyi'']
   \<and> distinct [Path ''src/b.pyi'']"
proof -
  have k: "fs src_tree (Path ''src/a.py'') = Some File"
    by code_simp
  have m: "match_glob (Path ''src/a.py'') [''a*''] = Inr True"
    by code_simp
  have f: "fst (filtered_files (TargetManager [] [] [''src/a.py'', ''src''] False) src_tree ''python'')
       = Inr [Path ''src/a.py'', Path ''src/b.pyi'']"
    by code_simp
  have g: "fst (get_files (TargetManager [] [] [''src/a.py'', ''src''] False) src_tree ''python'' [] [''a*''])
       = Inr [Path ''src/b.pyi'']"
    by code_simp
  from local_filters_on_explicit_files [OF triple_of_fst [OF g]] m k f g show ?thesis
    by blast
qed

end
